theory Spec2Isabelle
  imports Main "HOL-Library.Word" "HOL-Library.Sublist" "HOL-Library.Log_Nat"
begin

section \<open>The generated persistence implementation (UserDaoImpl)\<close>

text \<open>
  The data-access object that the generator emits for the entity \<open>domain.User\<close> is the
  text expected by \<open>TestGenDaoImplGo\<close>. Its methods are embedded here as functions. The
  collaborators the methods call but that are declared elsewhere (the store handle
  \<open>wrapper.Querier\<close>, the predicate type \<open>query.Q\<close> with its method \<open>Sql\<close>, the page type
  \<open>query.Page\<close> with \<open>Sql\<close> and \<open>query.NewPageRet\<close>, \<open>templateutils.BlockMysql\<close>,
  \<open>reflectutils.ValueOf\<close>) are parameters. The store is a state machine: every call
  takes the state of the store and returns the reply together with the next state, so
  what a method asks of the store, and in which order, is what the store's own functions
  receive.
\<close>

subsection \<open>Errors, integers, driver results\<close>

text \<open>
  \<open>errors.New\<close> and \<open>errors.Wrap\<close> of github.com/pkg/errors build the first two kinds
  of error; \<open>External\<close> is an error made by a collaborator.
\<close>

datatype error = ErrorsNew string | ErrorsWrap error string | External string

text \<open>Go's \<open>int64\<close>, and \<open>int\<close> on a 64-bit platform, read as two's complement by \<open>sint\<close>.\<close>

type_synonym int64 = "64 word"

text \<open>\<open>sql.Result\<close>: both methods return a pair \<open>(int64, error)\<close>.\<close>

record Result =
  LastInsertId :: "int64 \<times> error option"
  RowsAffected :: "int64 \<times> error option"

text \<open>
  The store handle, over the states \<open>'s\<close> of the store. \<open>'d\<close> is the type of the opaque
  \<open>data\<close> argument, \<open>'u\<close> the type of a row.
\<close>

record ('d, 'u, 's) Querier =
  NamedExecContext :: "string \<Rightarrow> 'd \<Rightarrow> 's \<Rightarrow> (error + Result) \<times> 's"
  ExecContext :: "string \<Rightarrow> 's \<Rightarrow> (error + Result) \<times> 's"
  SelectContext :: "string \<Rightarrow> 's \<Rightarrow> (error + 'u list) \<times> 's"
  GetContext :: "string \<Rightarrow> 's \<Rightarrow> (error + int64) \<times> 's"

text \<open>
  A store whose state is the list of the statements it has been asked to run, oldest
  first, and whose replies are fixed per statement. It is the store the properties below
  use to observe a method from outside.
\<close>

definition recorder ::
  "(string \<Rightarrow> 'd \<Rightarrow> error + Result) \<Rightarrow> (string \<Rightarrow> error + Result) \<Rightarrow>
   (string \<Rightarrow> error + 'u list) \<Rightarrow> (string \<Rightarrow> error + int64) \<Rightarrow>
   ('d, 'u, string list) Querier" where
  "recorder named exec select get =
     \<lparr> NamedExecContext = (\<lambda>stmt d log. (named stmt d, log @ [stmt])),
       ExecContext = (\<lambda>stmt log. (exec stmt, log @ [stmt])),
       SelectContext = (\<lambda>stmt log. (select stmt, log @ [stmt])),
       GetContext = (\<lambda>stmt log. (get stmt, log @ [stmt])) \<rparr>"

text \<open>\<open>strings.Join\<close>.\<close>

fun Join :: "string list \<Rightarrow> string \<Rightarrow> string" where
  "Join [] sep = []"
| "Join [x] sep = x"
| "Join (x # y # ys) sep = x @ sep @ Join (y # ys) sep"

subsection \<open>The entity, the opaque data argument, the heap\<close>

text \<open>
  \<open>domain.User\<close> has a primary key \<open>ID\<close> of type \<open>int\<close>; its other columns are the
  extension of the record. A value of type \<open>interface{}\<close> handed to the object is a
  pointer to an entity on the heap, an entity by value, or a value of another type. The
  heap maps the address of every entity to its current value.
\<close>

record User =
  ID :: int64

datatype ('u, 'o) data = UserPtr nat | UserVal 'u | OtherVal 'o

text \<open>What \<open>templateutils.BlockMysql\<close> is given as its last argument.\<close>

datatype 'u block_data = NoData | UserWhere 'u string

subsection \<open>Insert and Upsert\<close>



subsection \<open>DeleteMany\<close>

definition DeleteMany ::
  "('q \<Rightarrow> string) \<Rightarrow> ('d, 'u, 's) Querier \<Rightarrow> 'q \<Rightarrow> 's \<Rightarrow> (int64 \<times> error option) \<times> 's" where
  "DeleteMany Sql db whereQ s =
     (let statement = ''delete from user where '' @ Sql whereQ @ '';''
      in case ExecContext db statement s of
           (Inl err, s') \<Rightarrow>
             ((0, Some (ErrorsWrap err ''error returned from calling db.ExecContext'')), s')
         | (Inr result, s') \<Rightarrow> (RowsAffected result, s'))"

subsection \<open>UpdateMany and UpdateManyNoneZero\<close>

text \<open>
  \<open>underlying\<close> stands for \<open>reflectutils.ValueOf(data).Interface()\<close>, the value the type
  assertion is applied to.
\<close>

definition UpdateMany ::
  "(('u, 'o) data \<Rightarrow> ('u, 'o) data) \<Rightarrow> (string \<Rightarrow> 'u block_data \<Rightarrow> error + string) \<Rightarrow>
   ('q \<Rightarrow> string) \<Rightarrow> ('d, 'r, 's) Querier \<Rightarrow> ('u, 'o) data \<Rightarrow> 'q \<Rightarrow> 's \<Rightarrow>
   (int64 \<times> error option) \<times> 's" where
  "UpdateMany underlying BlockMysql Sql db dat whereQ s =
     (case underlying dat of
        UserVal user \<Rightarrow>
          (case BlockMysql ''UpdateUsers'' (UserWhere user (Sql whereQ)) of
             Inl err \<Rightarrow> ((0, Some err), s)
           | Inr statement \<Rightarrow>
               (case ExecContext db statement s of
                  (Inl err, s') \<Rightarrow>
                    ((0, Some (ErrorsWrap err ''error returned from calling db.Exec'')), s')
                | (Inr result, s') \<Rightarrow> (RowsAffected result, s')))
      | _ \<Rightarrow> ((0, Some (ErrorsNew ''incorrect type of parameter data'')), s))"

definition UpdateManyNoneZero ::
  "(('u, 'o) data \<Rightarrow> ('u, 'o) data) \<Rightarrow> (string \<Rightarrow> 'u block_data \<Rightarrow> error + string) \<Rightarrow>
   ('q \<Rightarrow> string) \<Rightarrow> ('d, 'r, 's) Querier \<Rightarrow> ('u, 'o) data \<Rightarrow> 'q \<Rightarrow> 's \<Rightarrow>
   (int64 \<times> error option) \<times> 's" where
  "UpdateManyNoneZero underlying BlockMysql Sql db dat whereQ s =
     (case underlying dat of
        UserVal user \<Rightarrow>
          (case BlockMysql ''UpdateUsersNoneZero'' (UserWhere user (Sql whereQ)) of
             Inl err \<Rightarrow> ((0, Some err), s)
           | Inr statement \<Rightarrow>
               (case ExecContext db statement s of
                  (Inl err, s') \<Rightarrow>
                    ((0, Some (ErrorsWrap err ''error returned from calling db.Exec'')), s')
                | (Inr result, s') \<Rightarrow> (RowsAffected result, s')))
      | _ \<Rightarrow> ((0, Some (ErrorsNew ''incorrect type of parameter data'')), s))"

subsection \<open>SelectMany and CountMany\<close>

text \<open>
  The slice \<open>statements\<close> is built as the source builds it: the head, then, when at
  least one predicate is given, the word \<open>where\<close> and the SQL of every predicate in the
  order of the arguments (the \<open>range\<close> loop is the fold).
\<close>

definition SelectMany ::
  "('q \<Rightarrow> string) \<Rightarrow> ('d, 'u, 's) Querier \<Rightarrow> 'q list \<Rightarrow> 's \<Rightarrow> (error + 'u list) \<times> 's" where
  "SelectMany Sql db whereQ s =
     (let statements = [] @ [''select * from user''];
          statements = (if 0 < length whereQ
                        then foldl (\<lambda>acc item. acc @ [Sql item]) (statements @ [''where'']) whereQ
                        else statements)
      in case SelectContext db (Join statements '' '') s of
           (Inl err, s') \<Rightarrow>
             (Inl (ErrorsWrap err ''error returned from calling db.SelectContext''), s')
         | (Inr users, s') \<Rightarrow> (Inr users, s'))"

definition CountMany ::
  "('q \<Rightarrow> string) \<Rightarrow> ('d, 'u, 's) Querier \<Rightarrow> 'q list \<Rightarrow> 's \<Rightarrow> (error + int64) \<times> 's" where
  "CountMany Sql db whereQ s =
     (let statements = [] @ [''select count(1) from user''];
          statements = (if 0 < length whereQ
                        then foldl (\<lambda>acc item. acc @ [Sql item]) (statements @ [''where'']) whereQ
                        else statements)
      in case GetContext db (Join statements '' '') s of
           (Inl err, s') \<Rightarrow>
             (Inl (ErrorsWrap err ''error returned from calling db.GetContext''), s')
         | (Inr total', s') \<Rightarrow> (Inr total', s'))"

subsection \<open>float64 arithmetic\<close>

text \<open>
  PageMany converts three integers to \<open>float64\<close>, divides, takes \<open>math.Ceil\<close> and
  compares. A \<open>float64\<close> is a rational with a 53-bit significand, an infinity or NaN.
  The sign of a zero is not represented: a conversion from an integer never yields
  \<open>-0\<close>, and neither \<open>math.Ceil\<close> nor \<open>>\<close> tells the two zeros apart.

  \<open>expo x\<close> is the binary exponent of a non-zero \<open>x\<close>, the \<open>e\<close> with
  \<open>2^e \<le> |x| < 2^(e+1)\<close>; \<open>round64\<close> is IEEE 754 rounding to the nearest \<open>float64\<close>,
  ties to the even significand, with the subnormal range below \<open>2^-1022\<close> and overflow to
  an infinity from \<open>2^1024\<close> on.
\<close>

datatype float64 = Finite rat | PosInf | NegInf | NaN

definition expo :: "rat \<Rightarrow> int" where
  "expo x =
     (let (n, d) = quotient_of \<bar>x\<bar>;
          e0 = int (floorlog 2 (nat n)) - int (floorlog 2 (nat d))
      in if 2 powi e0 \<le> \<bar>x\<bar> then e0 else e0 - 1)"

definition round_half_even :: "rat \<Rightarrow> int" where
  "round_half_even y =
     (let f = \<lfloor>y\<rfloor>; d = y - of_int f
      in if d < 1 / 2 then f else if 1 / 2 < d then f + 1 else if even f then f else f + 1)"

definition round64 :: "rat \<Rightarrow> float64" where
  "round64 x =
     (if x = 0 then Finite 0
      else let e = max (expo x) (- 1022);
               ulp = 2 powi (e - 52);
               r = of_int (round_half_even (x / ulp)) * ulp
           in if 1024 \<le> expo r then (if 0 < x then PosInf else NegInf) else Finite r)"

text \<open>The conversion \<open>float64(i)\<close> of an \<open>int\<close>.\<close>

definition float64_of_int :: "int64 \<Rightarrow> float64" where
  "float64_of_int i = round64 (of_int (sint i))"

text \<open>The operator \<open>/\<close> on \<open>float64\<close>.\<close>

fun fdiv :: "float64 \<Rightarrow> float64 \<Rightarrow> float64" where
  "fdiv (Finite a) (Finite b) =
     (if b = 0 then (if a = 0 then NaN else if 0 < a then PosInf else NegInf)
      else round64 (a / b))"
| "fdiv NaN _ = NaN"
| "fdiv _ NaN = NaN"
| "fdiv (Finite a) _ = Finite 0"
| "fdiv PosInf (Finite b) = (if b < 0 then NegInf else PosInf)"
| "fdiv NegInf (Finite b) = (if b < 0 then PosInf else NegInf)"
| "fdiv _ _ = NaN"

text \<open>\<open>math.Ceil\<close>.\<close>

fun Ceil :: "float64 \<Rightarrow> float64" where
  "Ceil (Finite a) = Finite (of_int \<lceil>a\<rceil>)"
| "Ceil x = x"

text \<open>The operator \<open>>\<close> on \<open>float64\<close>.\<close>

fun fgt :: "float64 \<Rightarrow> float64 \<Rightarrow> bool" where
  "fgt NaN _ = False"
| "fgt _ NaN = False"
| "fgt (Finite a) (Finite b) = (b < a)"
| "fgt PosInf PosInf = False"
| "fgt PosInf _ = True"
| "fgt _ PosInf = False"
| "fgt NegInf _ = False"
| "fgt (Finite a) NegInf = True"

subsection \<open>PageMany\<close>

text \<open>
  \<open>query.PageRet\<close>, with the fields the method reads and writes. \<open>NewPageRet\<close> stands for
  \<open>query.NewPageRet\<close> and \<open>PageSql\<close> for the method \<open>Sql\<close> of \<open>query.Page\<close>.
\<close>

record 'u PageRet =
  Items :: "'u list"
  PageNo :: int64
  PageSize :: int64
  Total :: int64
  HasNext :: bool

definition PageMany ::
  "('q \<Rightarrow> string) \<Rightarrow> ('p \<Rightarrow> string) \<Rightarrow> ('p \<Rightarrow> 'u PageRet) \<Rightarrow> ('d, 'u, 's) Querier \<Rightarrow>
   'p \<Rightarrow> 'q list \<Rightarrow> 's \<Rightarrow> (error + 'u PageRet) \<times> 's" where
  "PageMany Sql PageSql NewPageRet db page whereQ s =
     (let statements = [] @ [''select * from user''];
          statements = (if 0 < length whereQ
                        then foldl (\<lambda>acc item. acc @ [Sql item]) (statements @ [''where'']) whereQ
                        else statements);
          statements = statements @ [PageSql page]
      in case SelectContext db (Join statements '' '') s of
           (Inl err, s') \<Rightarrow>
             (Inl (ErrorsWrap err ''error returned from calling db.SelectContext''), s')
         | (Inr users, s') \<Rightarrow>
             (let statements = [] @ [''select count(1) from user''];
                  statements = (if 0 < length whereQ
                                then foldl (\<lambda>acc item. acc @ [Sql item])
                                       (statements @ [''where'']) whereQ
                                else statements)
              in case GetContext db (Join statements '' '') s' of
                   (Inl err, s'') \<Rightarrow>
                     (Inl (ErrorsWrap err ''error returned from calling db.GetContext''), s'')
                 | (Inr total', s'') \<Rightarrow>
                     (let pageRet = NewPageRet page;
                          pageRet = pageRet \<lparr> Items := users \<rparr>;
                          pageRet = pageRet \<lparr> Total := total' \<rparr>;
                          pageRet =
                            (if fgt (Ceil (fdiv (float64_of_int total')
                                             (float64_of_int (PageSize pageRet))))
                                  (float64_of_int (PageNo pageRet))
                             then pageRet \<lparr> HasNext := True \<rparr> else pageRet)
                      in (Inr pageRet, s''))))"

subsection \<open>Counting a keyword in a statement\<close>

text \<open>
  \<open>occurrences w s\<close> is the number of positions of \<open>s\<close> at which \<open>w\<close> starts. It is used
  to say how often the keyword \<open>where\<close> occurs in a statement.
\<close>

fun occurrences :: "string \<Rightarrow> string \<Rightarrow> nat" where
  "occurrences w [] = (if w = [] then 1 else 0)"
| "occurrences w (c # cs) = (if prefix w (c # cs) then 1 else 0) + occurrences w cs"

section \<open>The client generator\<close>

text \<open>
  \<open>GenGoClient\<close> renders the template \<open>tmpl\<close> over the metadata of the first interface
  and hands the text to \<open>astutils.FixImport\<close>. The template is embedded twice: as the text
  it emits, line by line (\<open>render\<close>), and as what the emitted method does when it is
  called (\<open>run_method\<close>). Both follow the template block by block.
\<close>

subsection \<open>Metadata and helper functions\<close>

text \<open>
  \<open>astutils.FieldMeta\<close>, \<open>astutils.MethodMeta\<close> and \<open>astutils.InterfaceMeta\<close>, with the
  fields the template reads. The name of a method is \<open>MethodName\<close> and that of the
  interface \<open>InterfaceName\<close> (both are \<open>Name\<close> in the source).
\<close>

record FieldMeta =
  Name :: string
  Type :: string

record MethodMeta =
  MethodName :: string
  Params :: "FieldMeta list"
  Results :: "FieldMeta list"

record InterfaceMeta =
  InterfaceName :: string
  Methods :: "MethodMeta list"

text \<open>
  The functions of the template's function map that are defined outside this file
  (\<open>strcase.ToLowerCamel\<close>, \<open>strcase.ToCamel\<close>, \<open>httpMethod\<close>, \<open>pattern\<close>,
  \<open>strings.ToLower\<close>, \<open>v3.IsBuiltin\<close>, \<open>strings.ToUpper\<close>, \<open>noSplitPattern\<close>), and the other
  pure library functions the generator calls (\<open>strings.Title\<close>, \<open>strings.TrimSpace\<close>,
  \<open>filepath.Join\<close>, \<open>copier.DeepCopy\<close>), are parameters.
\<close>

record funcs =
  fn_toLowerCamel :: "string \<Rightarrow> string"
  fn_toCamel :: "string \<Rightarrow> string"
  fn_httpMethod :: "string \<Rightarrow> string"
  fn_pattern :: "string \<Rightarrow> string"
  fn_lower :: "string \<Rightarrow> string"
  fn_isBuiltin :: "FieldMeta \<Rightarrow> bool"
  fn_toUpper :: "string \<Rightarrow> string"
  fn_noSplitPattern :: "string \<Rightarrow> string"
  fn_Title :: "string \<Rightarrow> string"
  fn_TrimSpace :: "string \<Rightarrow> string"
  fn_PathJoin :: "string \<Rightarrow> string \<Rightarrow> string"
  fn_DeepCopy :: "InterfaceMeta \<Rightarrow> error + InterfaceMeta"

text \<open>\<open>strings.Contains\<close> (the template's \<open>contains\<close>) and \<open>strings.TrimPrefix\<close>.\<close>

definition contains :: "string \<Rightarrow> string \<Rightarrow> bool" where
  "contains s substr = sublist substr s"

definition TrimPrefix :: "string \<Rightarrow> string \<Rightarrow> string" where
  "TrimPrefix s p = (if prefix p s then drop (length p) s else s)"

definition restyMethod :: "funcs \<Rightarrow> string \<Rightarrow> string" where
  "restyMethod fm method = fn_Title fm (fn_lower fm (fn_httpMethod fm method))"

subsection \<open>The text the template emits\<close>

text \<open>
  The output is the list of its non-blank lines, each without its indentation. The
  blocks are named after what they emit; each \<open>range\<close> of the template is a \<open>map\<close> over
  the same sequence, each \<open>if\<close> an \<open>if\<close>.
\<close>

definition assign_wrap :: "FieldMeta list \<Rightarrow> string list" where
  \<open>assign_wrap results =
     concat (map (\<lambda>r. if Type r = ''error''
                        then [Name r @ '' = errors.Wrap(_err, "")''] else []) results)\<close>

definition assign_new :: "FieldMeta list \<Rightarrow> string list" where
  \<open>assign_new results =
     concat (map (\<lambda>r. if Type r = ''error''
                        then [Name r @ '' = errors.New(_resp.String())''] else []) results)\<close>

definition param_lines :: "funcs \<Rightarrow> FieldMeta list \<Rightarrow> FieldMeta \<Rightarrow> string list" where
  \<open>param_lines fm results p =
     (if contains (Type p) ''*multipart.FileHeader'' then
        (if contains (Type p) ''['' then
           [''for _, _fh := range '' @ Name p @ '' {'',
            ''_f, _err := _fh.Open()'',
            ''if _err != nil {'']
           @ assign_wrap results @
           [''return'',
            ''}'',
            ''_req.SetFileReader("'' @ Name p @ ''", _fh.Filename, _f)'',
            ''}'']
         else
           [''if _f, _err := '' @ Name p @ ''.Open(); _err != nil {'']
           @ assign_wrap results @
           [''return'',
            ''} else {'',
            ''_req.SetFileReader("'' @ Name p @ ''", '' @ Name p @ ''.Filename, _f)'',
            ''}''])
      else if contains (Type p) ''*v3.FileModel'' then
        (if contains (Type p) ''['' then
           [''for _, _f := range '' @ Name p @ '' {'',
            ''_req.SetFileReader("'' @ Name p @ ''", _f.Filename, _f.Reader)'',
            ''}'']
         else
           [''_req.SetFileReader("'' @ Name p @ ''", '' @ Name p @ ''.Filename, ''
              @ Name p @ ''.Reader)''])
      else if Type p = ''context.Context'' then
        [''_req.SetContext('' @ Name p @ '')'']
      else if \<not> fn_isBuiltin fm p then
        [''_req.SetBody('' @ Name p @ '')'']
      else if contains (Type p) ''['' then
        [''for _, _item := range '' @ Name p @ '' {'',
         ''_urlValues.Add("'' @ Name p @ ''", fmt.Sprintf("%v", _item))'',
         ''}'']
      else
        [''_urlValues.Set("'' @ Name p @ ''", fmt.Sprintf("%v", '' @ Name p @ ''))''])\<close>

definition download_lines :: "FieldMeta list \<Rightarrow> FieldMeta \<Rightarrow> string list" where
  \<open>download_lines results r =
     [''_disp := _resp.Header().Get("Content-Disposition")'',
      ''_file := strings.TrimPrefix(_disp, "attachment; filename=")'',
      ''_output := config.GddOutput.Load()'',
      ''if stringutils.IsNotEmpty(_output) {'',
      ''_file = _output + string(filepath.Separator) + _file'',
      ''}'',
      ''_file = filepath.Clean(_file)'',
      ''if _err = fileutils.CreateDirectory(filepath.Dir(_file)); _err != nil {'']
     @ assign_wrap results @
     [''return'',
      ''}'',
      ''_outFile, _err := os.Create(_file)'',
      ''if _err != nil {'']
     @ assign_wrap results @
     [''return'',
      ''}'',
      ''defer _outFile.Close()'',
      ''defer _resp.RawBody().Close()'',
      ''_, _err = io.Copy(_outFile, _resp.RawBody())'',
      ''if _err != nil {'']
     @ assign_wrap results @
     [''return'',
      ''}'',
      Name r @ '' = _outFile'',
      ''return'']\<close>

text \<open>The line that decodes the body of the response as JSON.\<close>

definition unmarshal_line :: string where
  \<open>unmarshal_line = ''if _err = json.Unmarshal(_resp.Body(), &_result); _err != nil {''\<close>

definition decode_lines :: "funcs \<Rightarrow> FieldMeta list \<Rightarrow> string list" where
  \<open>decode_lines fm results =
     [''var _result struct {'']
     @ map (\<lambda>r. if Type r = ''error''
                 then fn_toCamel fm (Name r) @ '' string '' @ [CHR 0x60] @ ''json:"''
                        @ fn_toLowerCamel fm (Name r) @ ''"'' @ [CHR 0x60]
                 else fn_toCamel fm (Name r) @ '' '' @ Type r @ '' '' @ [CHR 0x60] @ ''json:"''
                        @ fn_toLowerCamel fm (Name r) @ ''"'' @ [CHR 0x60]) results
     @ [''}'',
        unmarshal_line]
     @ assign_wrap results @
     [''return'',
      ''}'']
     @ concat (map (\<lambda>r. if Type r = ''error''
                          then [''if stringutils.IsNotEmpty(_result.'' @ fn_toCamel fm (Name r)
                                  @ '') {'',
                                Name r @ '' = errors.New(_result.'' @ fn_toCamel fm (Name r)
                                  @ '')'',
                                ''return'',
                                ''}'']
                          else []) results)
     @ [''return '' @ Join (map (\<lambda>r. if Type r = ''error'' then ''nil''
                                      else ''_result.'' @ fn_toCamel fm (Name r)) results) '','']\<close>

text \<open>
  The variable \<open>$done\<close> of the template is set in the block of a result of type
  \<open>*os.File\<close>, so after the \<open>range\<close> it tells whether there is such a result.
\<close>

definition render_method :: "funcs \<Rightarrow> string \<Rightarrow> int \<Rightarrow> MethodMeta \<Rightarrow> string list" where
  \<open>render_method fm iname strategy m =
     [''func (receiver *'' @ iname @ ''Client) '' @ MethodName m @ ''(''
        @ Join (map (\<lambda>p. Name p @ '' '' @ Type p) (Params m)) '','' @ '') (''
        @ Join (map (\<lambda>r. Name r @ '' '' @ Type r) (Results m)) '','' @ '') {'',
      ''var ('',
      ''_server string'',
      ''_err error'',
      '')'',
      ''if _server, _err = receiver.provider.SelectServer(); _err != nil {'']
     @ assign_wrap (Results m) @
     [''return'',
      ''}'',
      ''_urlValues := url.Values{}'',
      ''_req := receiver.client.R()'']
     @ concat (map (param_lines fm (Results m)) (Params m))
     @ concat (map (\<lambda>r. if Type r = ''*os.File''
                          then [''_req.SetDoNotParseResponse(true)''] else []) (Results m))
     @ (if strategy = 1
        then [''_path := "/'' @ fn_lower fm iname @ ''/''
                @ fn_noSplitPattern fm (MethodName m) @ ''"'']
        else [''_path := "/'' @ fn_pattern fm (MethodName m) @ ''"''])
     @ (if fn_httpMethod fm (MethodName m) = ''GET''
        then [''_resp, _err := _req.SetQueryParamsFromValues(_urlValues).'',
              ''Get(_server + _path)'']
        else [''if _req.Body != nil {'',
              ''_req.SetQueryParamsFromValues(_urlValues)'',
              ''} else {'',
              ''_req.SetFormDataFromValues(_urlValues)'',
              ''}'',
              ''_resp, _err := _req.'' @ restyMethod fm (MethodName m) @ ''(_server + _path)''])
     @ [''if _err != nil {'']
     @ assign_wrap (Results m) @
     [''return'',
      ''}'',
      ''if _resp.IsError() {'']
     @ assign_new (Results m) @
     [''return'',
      ''}'']
     @ concat (map (\<lambda>r. if Type r = ''*os.File'' then download_lines (Results m) r else [])
                 (Results m))
     @ (if \<not> (\<exists>r \<in> set (Results m). Type r = ''*os.File'')
        then decode_lines fm (Results m) else [])
     @ [''}'']\<close>

text \<open>The data the template is executed on, and the whole output.\<close>

record render_data =
  VoPackage :: string
  Meta :: InterfaceMeta
  Env :: string
  RoutePatternStrategy :: int

definition render :: "funcs \<Rightarrow> render_data \<Rightarrow> string list" where
  \<open>render fm d =
     [''package client'',
      ''import ('',
      ''"context"'',
      ''"encoding/json"'',
      ''"github.com/go-resty/resty/v2"'',
      ''"github.com/pkg/errors"'',
      ''"github.com/unionj-cloud/go-doudou/fileutils"'',
      ''"github.com/unionj-cloud/go-doudou/stringutils"'',
      ''ddhttp "github.com/unionj-cloud/go-doudou/svc/http"'',
      ''v3 "github.com/unionj-cloud/go-doudou/openapi/v3"'',
      ''"io"'',
      ''"mime/multipart"'',
      ''"net/url"'',
      ''"os"'',
      ''"path/filepath"'',
      ''"strings"'',
      ''"'' @ VoPackage d @ ''"'',
      '')'',
      ''type '' @ InterfaceName (Meta d) @ ''Client struct {'',
      ''provider ddhttp.IServiceProvider'',
      ''client   *resty.Client'',
      ''}'',
      ''func (receiver *'' @ InterfaceName (Meta d)
        @ ''Client) SetProvider(provider ddhttp.IServiceProvider) {'',
      ''receiver.provider = provider'',
      ''}'',
      ''func (receiver *'' @ InterfaceName (Meta d)
        @ ''Client) SetClient(client *resty.Client) {'',
      ''receiver.client = client'',
      ''}'']
     @ concat (map (render_method fm (InterfaceName (Meta d)) (RoutePatternStrategy d))
                 (Methods (Meta d)))
     @ [''func New'' @ InterfaceName (Meta d) @ ''(opts ...ddhttp.DdClientOption) *''
          @ InterfaceName (Meta d) @ ''Client {'',
        (if Env d \<noteq> []
         then ''defaultProvider := ddhttp.NewServiceProvider("'' @ Env d @ ''")''
         else ''defaultProvider := ddhttp.NewServiceProvider("''
                @ fn_toUpper fm (InterfaceName (Meta d)) @ ''")''),
        ''defaultClient := ddhttp.NewClient()'',
        ''svcClient := &'' @ InterfaceName (Meta d) @ ''Client{'',
        ''provider: defaultProvider,'',
        ''client:   defaultClient,'',
        ''}'',
        ''for _, opt := range opts {'',
        ''opt(svcClient)'',
        ''}'',
        ''return svcClient'',
        ''}'']\<close>

section \<open>Properties of the generated persistence implementation\<close>

subsection \<open>Building the statements\<close>

lemma foldl_append_Sql:
  "foldl (\<lambda>acc item. acc @ [f item]) acc0 xs = acc0 @ map f xs"
  by (induction xs arbitrary: acc0) simp_all

lemma Join_where:
  "fs \<noteq> [] \<Longrightarrow> Join (h # ''where'' # fs) '' '' = h @ '' where '' @ Join fs '' ''"
  by (cases fs) simp_all

lemma Join_snoc:
  "Join (xs @ [y]) sep = (if xs = [] then y else Join xs sep @ sep @ y)"
  by (induction xs sep rule: Join.induct) simp_all

lemma where_not_in_select: "occurrences ''where'' (''select * from user'' @ p) = occurrences ''where'' p"
  by simp

lemma where_not_in_count:
  "occurrences ''where'' (''select count(1) from user'' @ p) = occurrences ''where'' p"
  by simp

lemma where_once: "occurrences ''where'' ('' where '' @ p) = Suc (occurrences ''where'' p)"
  by simp

lemma where_not_in_space: "occurrences ''where'' ('' '' @ p) = occurrences ''where'' p"
  by simp

lemma where_in_delete:
  "occurrences ''where'' (''delete from user where '' @ p) = Suc (occurrences ''where'' p)"
  by simp

lemma SelectMany_eq:
  "SelectMany Sql db whereQ s =
     (case SelectContext db
             (if whereQ = [] then ''select * from user''
              else ''select * from user'' @ '' where '' @ Join (map Sql whereQ) '' '') s of
        (Inl err, s') \<Rightarrow>
          (Inl (ErrorsWrap err ''error returned from calling db.SelectContext''), s')
      | (Inr users, s') \<Rightarrow> (Inr users, s'))"
  by (cases whereQ) (simp_all add: SelectMany_def foldl_append_Sql Join_where del: Join.simps(3))

lemma CountMany_eq:
  "CountMany Sql db whereQ s =
     (case GetContext db
             (if whereQ = [] then ''select count(1) from user''
              else ''select count(1) from user'' @ '' where '' @ Join (map Sql whereQ) '' '') s of
        (Inl err, s') \<Rightarrow>
          (Inl (ErrorsWrap err ''error returned from calling db.GetContext''), s')
      | (Inr total', s') \<Rightarrow> (Inr total', s'))"
  by (cases whereQ) (simp_all add: CountMany_def foldl_append_Sql Join_where del: Join.simps(3))

lemma PageMany_eq:
  "PageMany Sql PageSql NewPageRet db page whereQ s =
     (case SelectContext db
             (if whereQ = [] then ''select * from user'' @ '' '' @ PageSql page
              else ''select * from user'' @ '' where '' @ Join (map Sql whereQ) '' ''
                     @ '' '' @ PageSql page) s of
        (Inl err, s') \<Rightarrow>
          (Inl (ErrorsWrap err ''error returned from calling db.SelectContext''), s')
      | (Inr users, s') \<Rightarrow>
          (case GetContext db
                  (if whereQ = [] then ''select count(1) from user''
                   else ''select count(1) from user'' @ '' where ''
                          @ Join (map Sql whereQ) '' '') s' of
             (Inl err, s'') \<Rightarrow>
               (Inl (ErrorsWrap err ''error returned from calling db.GetContext''), s'')
           | (Inr total', s'') \<Rightarrow>
               (Inr (if fgt (Ceil (fdiv (float64_of_int total')
                                     (float64_of_int (PageSize (NewPageRet page)))))
                          (float64_of_int (PageNo (NewPageRet page)))
                     then (NewPageRet page) \<lparr> Items := users, Total := total', HasNext := True \<rparr>
                     else (NewPageRet page) \<lparr> Items := users, Total := total' \<rparr>), s'')))"
proof (cases whereQ)
  case Nil
  then show ?thesis
    by (simp add: PageMany_def Let_def split: prod.split sum.split)
next
  case (Cons q qs)
  have j: "Join (''select * from user'' # ''where'' # map Sql (q # qs) @ [PageSql page]) '' ''
             = ''select * from user'' @ '' where '' @ Join (map Sql (q # qs)) '' ''
                 @ '' '' @ PageSql page"
    using Join_where [of "map Sql (q # qs) @ [PageSql page]" "''select * from user''"]
      Join_snoc [of "map Sql (q # qs)" "PageSql page" "'' ''"]
    by simp
  have k: "Join (''select count(1) from user'' # ''where'' # map Sql (q # qs)) '' ''
             = ''select count(1) from user'' @ '' where '' @ Join (map Sql (q # qs)) '' ''"
    using Join_where [of "map Sql (q # qs)" "''select count(1) from user''"] by simp
  show ?thesis
    unfolding Cons PageMany_def Let_def foldl_append_Sql
    using j k by (simp split: prod.split sum.split del: Join.simps)
qed

lemma prefix_past_space:
  assumes "CHR '' '' \<notin> set w"
  shows "prefix w (a @ '' '' @ b) \<longleftrightarrow> prefix w a"
proof
  assume "prefix w (a @ '' '' @ b)"
  then consider "prefix w a" | us where "w = a @ us" "prefix us ('' '' @ b)"
    by (auto simp: prefix_append)
  then show "prefix w a"
  proof cases
    case 1
    then show ?thesis .
  next
    case 2
    show ?thesis
    proof (cases us)
      case Nil
      then show ?thesis using 2 by simp
    next
      case (Cons u us')
      then have "u = CHR '' ''" using 2(2) by simp
      then show ?thesis using assms 2(1) Cons by simp
    qed
  qed
next
  assume "prefix w a"
  then show "prefix w (a @ '' '' @ b)" by (simp add: prefix_prefix)
qed

lemma occurrences_space:
  assumes "CHR '' '' \<notin> set w" and "w \<noteq> []"
  shows "occurrences w (a @ '' '' @ b) = occurrences w a + occurrences w b"
proof (induction a)
  case Nil
  have "\<not> prefix w ('' '' @ b)"
    using assms by (cases w) auto
  then show ?case using assms by simp
next
  case (Cons c a)
  have "prefix w ((c # a) @ '' '' @ b) \<longleftrightarrow> prefix w (c # a)"
    using assms(1) by (rule prefix_past_space)
  then show ?case using Cons by simp
qed

lemma where_across_space:
  "occurrences ''where'' (a @ '' '' @ b) = occurrences ''where'' a + occurrences ''where'' b"
  by (rule occurrences_space) simp_all

subsection \<open>Rounding to float64\<close>

lemma expo_bounds:
  assumes "x \<noteq> 0"
  shows "2 powi expo x \<le> \<bar>x\<bar> \<and> \<bar>x\<bar> < 2 powi (expo x + 1)"
proof -
  obtain n d where q: "quotient_of \<bar>x\<bar> = (n, d)" by (cases "quotient_of \<bar>x\<bar>")
  have d: "0 < d" using q by (rule quotient_of_denom_pos)
  have xq: "\<bar>x\<bar> = of_int n / of_int d" using q by (rule quotient_of_div)
  have n: "0 < n"
  proof -
    have "0 < \<bar>x\<bar>" using assms by simp
    then have "0 < (of_int n :: rat) / of_int d" using xq by simp
    then show ?thesis using d by (simp add: zero_less_divide_iff)
  qed
  define ln where "ln = floorlog 2 (nat n)"
  define ld where "ld = floorlog 2 (nat d)"
  have bn: "2 ^ (ln - 1) \<le> nat n \<and> nat n < 2 ^ ln"
    unfolding ln_def using n by (intro floorlog_bounds) auto
  have bd: "2 ^ (ld - 1) \<le> nat d \<and> nat d < 2 ^ ld"
    unfolding ld_def using d by (intro floorlog_bounds) auto
  have ln1: "1 \<le> ln" unfolding ln_def using n by (simp add: floorlog_def)
  have ld1: "1 \<le> ld" unfolding ld_def using d by (simp add: floorlog_def)
  have n_lo: "(2::rat) powi (int ln - 1) \<le> of_int n"
  proof -
    have "(2::rat) ^ (ln - 1) \<le> of_nat (nat n)"
      using bn by (metis of_nat_le_iff of_nat_numeral of_nat_power)
    moreover have "(2::rat) powi (int ln - 1) = 2 ^ (ln - 1)"
      using ln1 by (simp add: power_int_def nat_diff_distrib')
    ultimately show ?thesis using n by simp
  qed
  have n_hi: "of_int n < (2::rat) powi (int ln)"
  proof -
    have "of_nat (nat n) < (2::rat) ^ ln"
      using bn by (metis of_nat_less_iff of_nat_numeral of_nat_power)
    then show ?thesis using n by simp
  qed
  have d_lo: "(2::rat) powi (int ld - 1) \<le> of_int d"
  proof -
    have "(2::rat) ^ (ld - 1) \<le> of_nat (nat d)"
      using bd by (metis of_nat_le_iff of_nat_numeral of_nat_power)
    moreover have "(2::rat) powi (int ld - 1) = 2 ^ (ld - 1)"
      using ld1 by (simp add: power_int_def nat_diff_distrib')
    ultimately show ?thesis using d by simp
  qed
  have d_hi: "of_int d < (2::rat) powi (int ld)"
  proof -
    have "of_nat (nat d) < (2::rat) ^ ld"
      using bd by (metis of_nat_less_iff of_nat_numeral of_nat_power)
    then show ?thesis using d by simp
  qed
  define e0 where "e0 = int ln - int ld"
  have dpos: "0 < (of_int d :: rat)" using d by simp
  have lo: "2 powi (e0 - 1) \<le> \<bar>x\<bar>"
  proof -
    have "(2::rat) powi (e0 - 1) * of_int d \<le> 2 powi (e0 - 1) * 2 powi (int ld)"
      using d_hi by (intro mult_left_mono) auto
    also have "\<dots> = 2 powi (int ln - 1)"
      using power_int_add [of "2::rat" "e0 - 1" "int ld"] by (simp add: e0_def)
    also have "\<dots> \<le> of_int n" by (rule n_lo)
    finally show ?thesis using dpos by (simp add: xq pos_le_divide_eq)
  qed
  have hi: "\<bar>x\<bar> < 2 powi (e0 + 1)"
  proof -
    have "of_int n < (2::rat) powi (int ln)" by (rule n_hi)
    also have "\<dots> = 2 powi (e0 + 1) * 2 powi (int ld - 1)"
      using power_int_add [of "2::rat" "e0 + 1" "int ld - 1"] by (simp add: e0_def)
    also have "\<dots> \<le> 2 powi (e0 + 1) * of_int d"
      using d_lo by (intro mult_left_mono) auto
    finally show ?thesis using dpos by (simp add: xq pos_divide_less_eq)
  qed
  have ex: "expo x = (if 2 powi e0 \<le> \<bar>x\<bar> then e0 else e0 - 1)"
    by (simp add: expo_def q e0_def ln_def ld_def)
  show ?thesis
  proof (cases "2 powi e0 \<le> \<bar>x\<bar>")
    case True
    then show ?thesis using hi ex by simp
  next
    case False
    then show ?thesis using lo ex by simp
  qed
qed

lemma pow2_not_le_0: "\<not> (2::rat) powi e \<le> 0"
  by (simp add: not_le)

lemma pow2_less_iff: "(2::rat) powi a < 2 powi b \<longleftrightarrow> a < b"
proof
  assume l: "(2::rat) powi a < 2 powi b"
  show "a < b"
  proof (rule ccontr)
    assume "\<not> a < b"
    then have "b \<le> a" by simp
    then have "(2::rat) powi b \<le> 2 powi a" by (intro power_int_increasing) auto
    then show False using l by simp
  qed
next
  assume "a < b"
  then show "(2::rat) powi a < 2 powi b" by (intro power_int_strict_increasing) auto
qed

lemma pow2_le_iff: "(2::rat) powi a \<le> 2 powi b \<longleftrightarrow> a \<le> b"
  using pow2_less_iff [of b a] by (simp add: not_less [symmetric])

lemma expo_unique:
  assumes "2 powi e \<le> \<bar>x\<bar>" and "\<bar>x\<bar> < 2 powi (e + 1)"
  shows "expo x = e"
proof -
  have x0: "x \<noteq> 0"
  proof
    assume "x = 0"
    then have "2 powi e \<le> (0::rat)" using assms(1) by simp
    moreover have "0 < (2::rat) powi e" by simp
    ultimately show False by linarith
  qed
  note b = expo_bounds [OF x0]
  have "2 powi expo x < (2::rat) powi (e + 1)" using b assms by linarith
  then have 1: "expo x < e + 1" by (simp only: pow2_less_iff)
  have "2 powi e < (2::rat) powi (expo x + 1)" using b assms by linarith
  then have 2: "e < expo x + 1" by (simp only: pow2_less_iff)
  show ?thesis using 1 2 by simp
qed

lemma round_half_even_err: "\<bar>of_int (round_half_even y) - y\<bar> \<le> 1 / 2"
proof -
  have "of_int \<lfloor>y\<rfloor> \<le> y" and "y < of_int \<lfloor>y\<rfloor> + 1" by linarith+
  then show ?thesis
    by (auto simp: round_half_even_def Let_def)
qed

lemma round_half_even_of_int: "round_half_even (of_int k) = k"
  by (simp add: round_half_even_def)

lemma round_half_even_ge: "of_int a \<le> y \<Longrightarrow> a \<le> round_half_even y"
proof -
  assume "of_int a \<le> y"
  then have "a \<le> \<lfloor>y\<rfloor>" by (simp add: le_floor_iff)
  then show ?thesis by (auto simp: round_half_even_def Let_def)
qed

lemma round_half_even_le: "y \<le> of_int b \<Longrightarrow> round_half_even y \<le> b"
proof -
  assume yb: "y \<le> of_int b"
  then have fb: "\<lfloor>y\<rfloor> \<le> b" by (simp add: floor_le_iff)
  show ?thesis
  proof (cases "y = of_int \<lfloor>y\<rfloor>")
    case True
    then have "round_half_even y = \<lfloor>y\<rfloor>"
      by (metis round_half_even_of_int)
    then show ?thesis using fb by simp
  next
    case False
    then have "of_int \<lfloor>y\<rfloor> < y" using of_int_floor_le [of y] by linarith
    then have "of_int \<lfloor>y\<rfloor> < (of_int b :: rat)" using yb by linarith
    then have "\<lfloor>y\<rfloor> + 1 \<le> b" by simp
    then show ?thesis using fb by (auto simp: round_half_even_def Let_def)
  qed
qed

lemma rat_of_int_le: "(a::int) \<le> b \<Longrightarrow> (of_int a :: rat) \<le> of_int b"
  by (simp only: of_int_le_iff)

lemma rat_of_int_less: "(a::int) < b \<Longrightarrow> (of_int a :: rat) < of_int b"
  by (simp only: of_int_less_iff)

lemma one_le_rat_of_abs: "(t::int) \<noteq> 0 \<Longrightarrow> (1::rat) \<le> of_int \<bar>t\<bar>"
proof -
  assume "t \<noteq> 0"
  then have "1 \<le> \<bar>t\<bar>" by simp
  then have "(of_int 1 :: rat) \<le> of_int \<bar>t\<bar>" by (rule rat_of_int_le)
  then show ?thesis by simp
qed

lemma round64_0: "round64 0 = Finite 0"
  unfolding round64_def by (rule if_P) (rule refl)

lemma normal_range:
  fixes x :: rat
  assumes "1 / 2 ^ 64 \<le> \<bar>x\<bar>" and "\<bar>x\<bar> \<le> 2 ^ 64"
  shows "2 powi (- 1022) \<le> \<bar>x\<bar>" and "\<bar>x\<bar> < 2 powi 1023"
proof -
  have a: "(2::rat) powi (- 1022) \<le> 2 powi (- 64)" by (simp only: pow2_le_iff)
  have b: "(2::rat) powi (- 64) = 1 / 2 ^ 64" by (simp add: power_int_minus_divide)
  show "2 powi (- 1022) \<le> \<bar>x\<bar>" using a assms(1) unfolding b by (rule order_trans)
  have c: "(2::rat) powi 64 < 2 powi 1023" by (simp only: pow2_less_iff)
  have d: "(2::rat) powi 64 = 2 ^ 64" by simp
  show "\<bar>x\<bar> < 2 powi 1023" using assms(2) c unfolding d by (rule le_less_trans)
qed

lemma round64_normal:
  assumes lo: "2 powi (- 1022) \<le> \<bar>x\<bar>" and hi: "\<bar>x\<bar> < 2 powi 1023"
  shows "\<exists>r. round64 x = Finite r \<and> \<bar>r - x\<bar> \<le> 2 powi (expo x - 53)
           \<and> 2 powi expo x \<le> \<bar>r\<bar> \<and> \<bar>r\<bar> \<le> 2 powi (expo x + 1)
           \<and> (0 < x \<longrightarrow> 0 < r) \<and> (x < 0 \<longrightarrow> r < 0)"
proof -
  have x0: "x \<noteq> 0"
  proof
    assume "x = 0"
    then have "(2::rat) powi (- 1022) \<le> \<bar>0\<bar>" using lo by (simp only:)
    then have "(2::rat) powi (- 1022) \<le> 0" by (simp only: abs_zero)
    then show False by (simp only: pow2_not_le_0)
  qed
  note b = expo_bounds [OF x0]
  define e where "e = expo x"
  have "(2::rat) powi (- 1022) < 2 powi (e + 1)" using b lo unfolding e_def by linarith
  then have e_lo: "- 1022 \<le> e" by (simp only: pow2_less_iff)
  have "(2::rat) powi e < 2 powi 1023" using b hi unfolding e_def by linarith
  then have e_hi: "e < 1023" by (simp only: pow2_less_iff)
  define ulp :: rat where "ulp = 2 powi (e - 52)"
  define y where "y = x / ulp"
  define m where "m = round_half_even y"
  define r :: rat where "r = of_int m * ulp"
  have ulp_pos: "0 < ulp" unfolding ulp_def by (rule zero_less_power_int) simp
  have xy: "x = y * ulp" unfolding y_def using ulp_pos by simp
  have pe: "(2::rat) powi e = 2 ^ 52 * ulp"
    unfolding ulp_def using power_int_add [of "2::rat" 52 "e - 52"] by simp
  have pe1: "(2::rat) powi (e + 1) = 2 ^ 53 * ulp"
    unfolding ulp_def using power_int_add [of "2::rat" 53 "e - 52"] by (simp add: add.commute)
  have pe53: "(2::rat) powi (e - 53) = ulp / 2"
    unfolding ulp_def using power_int_add [of "2::rat" "- 1" "e - 52"] by simp
  have "\<bar>r - x\<bar> = \<bar>of_int m - y\<bar> * ulp"
    unfolding r_def xy using ulp_pos by (simp add: abs_mult left_diff_distrib [symmetric])
  also have "\<dots> \<le> (1 / 2) * ulp"
    unfolding m_def using ulp_pos round_half_even_err [of y] by (intro mult_right_mono) auto
  finally have err: "\<bar>r - x\<bar> \<le> 2 powi (e - 53)" by (simp add: pe53)
  have bx: "2 ^ 52 * ulp \<le> \<bar>x\<bar>" "\<bar>x\<bar> < 2 ^ 53 * ulp"
    using b unfolding e_def [symmetric] pe pe1 by auto
  have pos: "2 ^ 52 * ulp \<le> r \<and> r \<le> 2 ^ 53 * ulp" if "0 < x"
  proof -
    have "2 ^ 52 * ulp \<le> y * ulp" "y * ulp < 2 ^ 53 * ulp" using bx that xy by auto
    then have "of_int (2 ^ 52) \<le> y" "y \<le> of_int (2 ^ 53)" using ulp_pos by auto
    then have "2 ^ 52 \<le> m" "m \<le> 2 ^ 53"
      unfolding m_def by (auto intro: round_half_even_ge round_half_even_le)
    then have "(of_int (2 ^ 52) :: rat) \<le> of_int m" "(of_int m :: rat) \<le> of_int (2 ^ 53)"
      by (simp_all only: of_int_le_iff)
    then have "(2 ^ 52 :: rat) \<le> of_int m" "of_int m \<le> (2 ^ 53 :: rat)"
      by simp_all
    then show ?thesis unfolding r_def using ulp_pos by auto
  qed
  have neg: "- (2 ^ 53 * ulp) \<le> r \<and> r \<le> - (2 ^ 52 * ulp)" if "x < 0"
  proof -
    have A: "y * ulp \<le> (- (2 ^ 52)) * ulp" and B: "(- (2 ^ 53)) * ulp < y * ulp"
      using bx that xy by auto
    have "y \<le> - (2 ^ 52)" using A ulp_pos by (rule mult_right_le_imp_le)
    moreover have "- (2 ^ 53) < y" using B by (rule mult_right_less_imp_less) (use ulp_pos in simp)
    ultimately have "y \<le> of_int (- (2 ^ 52))" "of_int (- (2 ^ 53)) \<le> y" by auto
    then have "m \<le> - (2 ^ 52)" "- (2 ^ 53) \<le> m"
      unfolding m_def by (auto intro: round_half_even_ge round_half_even_le)
    then have "(of_int m :: rat) \<le> of_int (- (2 ^ 52))" "(of_int (- (2 ^ 53)) :: rat) \<le> of_int m"
      by (simp_all only: of_int_le_iff)
    then have C: "of_int m \<le> (- (2 ^ 52) :: rat)" and D: "(- (2 ^ 53) :: rat) \<le> of_int m"
      by simp_all
    have "of_int m * ulp \<le> (- (2 ^ 52)) * ulp"
      using C by (rule mult_right_mono) (use ulp_pos in simp)
    moreover have "(- (2 ^ 53)) * ulp \<le> of_int m * ulp"
      using D by (rule mult_right_mono) (use ulp_pos in simp)
    ultimately show ?thesis unfolding r_def by simp
  qed
  have up: "0 < 2 ^ 52 * ulp" using ulp_pos by simp
  have rb: "2 powi e \<le> \<bar>r\<bar> \<and> \<bar>r\<bar> \<le> 2 powi (e + 1)"
    unfolding pe pe1 using pos neg x0 up by (cases "0 < x") auto
  have sg: "(0 < x \<longrightarrow> 0 < r) \<and> (x < 0 \<longrightarrow> r < 0)"
    using pos neg up by auto
  have r0: "r \<noteq> 0" using rb pow2_not_le_0 [of e] by auto
  have "(2::rat) powi (e + 1) \<le> 2 powi 1023" using e_hi by (simp only: pow2_le_iff)
  also have "\<dots> < (2::rat) powi 1024" by (simp only: pow2_less_iff)
  finally have "\<bar>r\<bar> < 2 powi 1024" using rb by linarith
  then have "(2::rat) powi expo r < 2 powi 1024" using expo_bounds [OF r0] by linarith
  then have nov: "expo r < 1024" by (simp only: pow2_less_iff)
  have mx: "max (expo x) (- 1022) = e" using e_lo unfolding e_def by simp
  have "round64 x = Finite r"
    unfolding round64_def Let_def mx using x0 nov
    by (simp add: r_def m_def y_def ulp_def)
  then show ?thesis using err rb sg unfolding e_def by blast
qed

lemma round64_exact:
  assumes "x \<noteq> 0" and "- 1022 \<le> expo x" and "expo x < 1024"
    and "x / 2 powi (expo x - 52) = of_int j"
  shows "round64 x = Finite x"
proof -
  have mx: "max (expo x) (- 1022) = expo x" using assms(2) by simp
  have u: "(2::rat) powi (expo x - 52) \<noteq> 0" by simp
  have "of_int j * 2 powi (expo x - 52) = x"
    using assms(4) u by (metis nonzero_divide_eq_eq)
  then show ?thesis
    unfolding round64_def Let_def mx using assms(1,3)
    by (simp add: assms(4) round_half_even_of_int)
qed

lemma round64_of_int:
  assumes "\<bar>k\<bar> \<le> 2 ^ 53"
  shows "round64 (of_int k) = Finite (of_int k)"
proof (cases "k = 0")
  case True
  then show ?thesis by (simp add: round64_0)
next
  case False
  define x :: rat where "x = of_int k"
  have x0: "x \<noteq> 0" using False by (simp add: x_def)
  note b = expo_bounds [OF x0]
  have ax: "\<bar>x\<bar> = of_int \<bar>k\<bar>" by (simp add: x_def)
  have "(1::rat) \<le> of_int \<bar>k\<bar>" using False by (rule one_le_rat_of_abs)
  then have x1: "1 \<le> \<bar>x\<bar>" by (simp only: ax)
  have "of_int \<bar>k\<bar> \<le> (of_int (2 ^ 53) :: rat)" using assms by (simp only: of_int_le_iff)
  then have x2: "\<bar>x\<bar> \<le> 2 powi 53" by (simp add: ax)
  have "(2::rat) powi 0 < 2 powi (expo x + 1)" using b x1 by simp
  then have e0: "0 \<le> expo x" by (simp only: pow2_less_iff)
  have "(2::rat) powi expo x \<le> 2 powi 53" using b x2 by linarith
  then have e53: "expo x \<le> 53" by (simp only: pow2_le_iff)
  have "\<exists>j. x / 2 powi (expo x - 52) = of_int j"
  proof (cases "expo x \<le> 52")
    case True
    define n where "n = nat (52 - expo x)"
    have eq: "expo x - 52 = - int n" using True by (simp add: n_def)
    have "(2::rat) powi (expo x - 52) = 1 / 2 ^ n"
      unfolding eq by (simp add: power_int_minus_divide)
    then have "x / 2 powi (expo x - 52) = x * 2 ^ n" by simp
    also have "\<dots> = of_int (k * 2 ^ n)" by (simp add: x_def)
    finally show ?thesis by blast
  next
    case False
    then have e: "expo x = 53" using e53 by simp
    have "(2::rat) powi 53 \<le> \<bar>x\<bar>" using b e by simp
    then have "\<bar>x\<bar> = 2 ^ 53" using x2 by simp
    then have "of_int \<bar>k\<bar> = (of_int (2 ^ 53) :: rat)" by (simp add: ax)
    then have "\<bar>k\<bar> = 2 ^ 53" by (simp only: of_int_eq_iff)
    then have "even \<bar>k\<bar>" by simp
    then have "k = 2 * (k div 2)" by simp
    then have x2k: "x = 2 * of_int (k div 2)"
      unfolding x_def by (metis of_int_mult of_int_numeral)
    have "x / 2 powi (expo x - 52) = x / 2" unfolding e by simp
    also have "\<dots> = of_int (k div 2)" using x2k by simp
    finally have "x / 2 powi (expo x - 52) = of_int (k div 2)" .
    then show ?thesis by blast
  qed
  then obtain j where "x / 2 powi (expo x - 52) = of_int j" by blast
  then have "round64 x = Finite x"
    using x0 e0 e53 by (intro round64_exact) auto
  then show ?thesis by (simp add: x_def)
qed

lemma round64_rel_err:
  assumes lo: "2 powi (- 1022) \<le> \<bar>x\<bar>" and hi: "\<bar>x\<bar> < 2 powi 1023"
  shows "\<exists>r. round64 x = Finite r \<and> \<bar>r - x\<bar> \<le> \<bar>x\<bar> / 2 ^ 53"
proof -
  obtain r where r: "round64 x = Finite r" "\<bar>r - x\<bar> \<le> 2 powi (expo x - 53)"
    using round64_normal [OF lo hi] by blast
  have x0: "x \<noteq> 0"
  proof
    assume "x = 0"
    then have "(2::rat) powi (- 1022) \<le> \<bar>0\<bar>" using lo by (simp only:)
    then have "(2::rat) powi (- 1022) \<le> 0" by (simp only: abs_zero)
    then show False by (simp only: pow2_not_le_0)
  qed
  have "(2::rat) powi (expo x - 53) = 2 powi expo x / 2 ^ 53"
    using power_int_add [of "2::rat" "expo x" "- 53"] by (simp add: power_int_minus_divide)
  also have "\<dots> \<le> \<bar>x\<bar> / 2 ^ 53"
    using expo_bounds [OF x0] by (simp add: divide_right_mono)
  finally show ?thesis using r by fastforce
qed

lemma ceil_quot_pos:
  fixes t s :: int
  assumes t: "\<bar>t\<bar> < 2 ^ 53" and s0: "0 < s" and s: "s \<le> 2 ^ 53"
  shows "\<exists>r. round64 (of_int t / of_int s) = Finite r
           \<and> \<lceil>r\<rceil> = \<lceil>(of_int t / of_int s :: rat)\<rceil>"
proof (cases "s dvd t")
  case True
  then obtain k where k: "t = s * k" by (auto simp: dvd_def)
  have xk: "(of_int t / of_int s :: rat) = of_int k" using s0 by (simp add: k)
  have "\<bar>k\<bar> \<le> \<bar>s\<bar> * \<bar>k\<bar>" using s0 by (simp add: mult_le_cancel_right1)
  then have "\<bar>k\<bar> \<le> 2 ^ 53" using t by (simp add: k abs_mult)
  then have "round64 (of_int k) = Finite (of_int k)" by (rule round64_of_int)
  then show ?thesis by (simp add: xk)
next
  case False
  define x :: rat where "x = of_int t / of_int s"
  define c where "c = \<lceil>x\<rceil>"
  have sp: "0 < (of_int s :: rat)" using s0 by simp
  have xs: "x * of_int s = of_int t" using sp by (simp add: x_def)
  have t0: "t \<noteq> 0" using False by auto
  have neq: "x \<noteq> of_int k" for k
  proof
    assume "x = of_int k"
    then have "(of_int t :: rat) = of_int (k * s)" using xs by simp
    then have "t = k * s" by (simp only: of_int_eq_iff)
    then show False using False by simp
  qed
  have "x \<le> of_int c" unfolding c_def by linarith
  then have "x < of_int c" using neq [of c] by simp
  then have "x * of_int s < of_int c * of_int s" using sp by simp
  then have "(of_int t :: rat) < of_int (c * s)" using xs by simp
  then have "t < c * s" by (simp only: of_int_less_iff)
  then have "t + 1 \<le> c * s" by simp
  then have "(of_int (t + 1) :: rat) \<le> of_int (c * s)" by (simp only: of_int_le_iff)
  then have "(x + 1 / of_int s) * of_int s \<le> of_int c * of_int s"
    using sp xs by (simp add: distrib_right)
  then have up: "x + 1 / of_int s \<le> of_int c" using sp by (rule mult_right_le_imp_le)
  have "of_int c - 1 < x" unfolding c_def by linarith
  then have "(of_int c - 1) * of_int s < x * of_int s" using sp by simp
  then have "(of_int ((c - 1) * s) :: rat) < of_int t" using xs by simp
  then have "(c - 1) * s < t" by (simp only: of_int_less_iff)
  then have "(c - 1) * s + 1 \<le> t" by simp
  then have "(of_int ((c - 1) * s + 1) :: rat) \<le> of_int t" by (simp only: of_int_le_iff)
  then have "(of_int c - 1 + 1 / of_int s) * of_int s \<le> x * of_int s"
    using sp xs by (simp add: distrib_right)
  then have dn: "of_int c - 1 + 1 / of_int s \<le> x" using sp by (rule mult_right_le_imp_le)
  have ax: "\<bar>x\<bar> = of_int \<bar>t\<bar> / of_int s" using sp by (simp add: x_def)
  have t1: "(1::rat) \<le> of_int \<bar>t\<bar>" using t0 by (rule one_le_rat_of_abs)
  have t2: "(of_int \<bar>t\<bar> :: rat) < 2 ^ 53"
    using rat_of_int_less [OF t] by simp
  have s1: "(1::rat) \<le> of_int s" using s0 by simp
  have s2: "(of_int s :: rat) \<le> 2 ^ 53"
    using rat_of_int_le [OF s] by simp
  have "1 / 2 ^ 53 \<le> 1 / (of_int s :: rat)" using s2 sp by (simp add: frac_le)
  also have "\<dots> \<le> \<bar>x\<bar>" unfolding ax using t1 sp by (simp add: divide_right_mono)
  finally have lo': "1 / 2 ^ 64 \<le> \<bar>x\<bar>" by simp
  have "\<bar>x\<bar> \<le> of_int \<bar>t\<bar>" unfolding ax using s1 by (simp add: divide_le_eq mult_le_cancel_left1)
  then have hi': "\<bar>x\<bar> \<le> 2 ^ 64" using t2 by simp
  note lo = normal_range(1) [OF lo' hi'] and hi = normal_range(2) [OF lo' hi']
  obtain r where r: "round64 x = Finite r" "\<bar>r - x\<bar> \<le> \<bar>x\<bar> / 2 ^ 53"
    using round64_rel_err [OF lo hi] by blast
  have "\<bar>x\<bar> / 2 ^ 53 = (of_int \<bar>t\<bar> / 2 ^ 53) / of_int s" by (simp add: ax)
  also have "\<dots> < 1 / of_int s"
  proof -
    have "(of_int \<bar>t\<bar> / 2 ^ 53 :: rat) < 1" using t2 by simp
    then show ?thesis using sp by (rule divide_strict_right_mono)
  qed
  finally have "\<bar>r - x\<bar> < 1 / of_int s" using r(2) by linarith
  then have "of_int c - 1 < r" "r \<le> of_int c" using up dn by linarith+
  then have "\<lceil>r\<rceil> = c" by (simp add: ceiling_unique)
  then show ?thesis using r(1) by (simp add: x_def c_def)
qed

lemma ceil_quot_small:
  fixes t s :: int
  assumes t: "\<bar>t\<bar> < 2 ^ 53" and s0: "s \<noteq> 0" and s: "\<bar>s\<bar> \<le> 2 ^ 53"
  shows "\<exists>r. round64 (of_int t / of_int s) = Finite r
           \<and> \<lceil>r\<rceil> = \<lceil>(of_int t / of_int s :: rat)\<rceil>"
proof (cases "0 < s")
  case True
  then show ?thesis using ceil_quot_pos [of t s] t s by simp
next
  case False
  then have "0 < - s" "- s \<le> 2 ^ 53" "\<bar>- t\<bar> < 2 ^ 53" using s0 s t by auto
  then have "\<exists>r. round64 (of_int (- t) / of_int (- s)) = Finite r
           \<and> \<lceil>r\<rceil> = \<lceil>(of_int (- t) / of_int (- s) :: rat)\<rceil>"
    by (intro ceil_quot_pos) auto
  then show ?thesis by simp
qed

lemma round64_big:
  fixes s :: int
  assumes s1: "2 ^ 53 < \<bar>s\<bar>" and s2: "\<bar>s\<bar> \<le> 2 ^ 63"
  shows "\<exists>sb. round64 (of_int s) = Finite sb \<and> 2 ^ 53 \<le> \<bar>sb\<bar> \<and> \<bar>sb\<bar> \<le> 2 ^ 64
           \<and> (0 < s \<longrightarrow> 0 < sb) \<and> (s < 0 \<longrightarrow> sb < 0)"
proof -
  define x :: rat where "x = of_int s"
  have ax: "\<bar>x\<bar> = of_int \<bar>s\<bar>" by (simp add: x_def)
  have x1: "2 ^ 53 < \<bar>x\<bar>"
    unfolding ax using rat_of_int_less [OF s1] by simp
  have x2: "\<bar>x\<bar> \<le> 2 ^ 63"
    unfolding ax using rat_of_int_le [OF s2] by simp
  have lo': "1 / 2 ^ 64 \<le> \<bar>x\<bar>" using x1 by simp
  have hi': "\<bar>x\<bar> \<le> 2 ^ 64" using x2 by simp
  note lo = normal_range(1) [OF lo' hi'] and hi = normal_range(2) [OF lo' hi']
  have x0: "x \<noteq> 0" using x1 by auto
  note b = expo_bounds [OF x0]
  have "(2::rat) powi 53 < 2 powi (expo x + 1)" using b x1 by simp
  then have e1: "53 \<le> expo x" by (simp only: pow2_less_iff)
  have "(2::rat) powi expo x \<le> 2 powi 63" using b x2 by simp
  then have e2: "expo x \<le> 63" by (simp only: pow2_le_iff)
  obtain sb where sb: "round64 x = Finite sb" "2 powi expo x \<le> \<bar>sb\<bar>"
      "\<bar>sb\<bar> \<le> 2 powi (expo x + 1)" "0 < x \<longrightarrow> 0 < sb" "x < 0 \<longrightarrow> sb < 0"
    using round64_normal [OF lo hi] by blast
  have "(2::rat) powi 53 \<le> 2 powi expo x" using e1 by (simp only: pow2_le_iff)
  then have g1: "2 ^ 53 \<le> \<bar>sb\<bar>" using sb(2) by simp
  have "(2::rat) powi (expo x + 1) \<le> 2 powi 64" using e2 by (simp only: pow2_le_iff)
  then have g2: "\<bar>sb\<bar> \<le> 2 ^ 64" using sb(3) by simp
  show ?thesis using sb(1,4,5) g1 g2 by (auto simp: x_def)
qed

lemma ceil_quot_big:
  fixes t s :: int
  assumes t: "\<bar>t\<bar> < 2 ^ 53" and sb1: "2 ^ 53 \<le> \<bar>sb\<bar>" and sb2: "\<bar>sb\<bar> \<le> 2 ^ 64"
    and s1: "2 ^ 53 < \<bar>s\<bar>" and sg: "0 < s \<longrightarrow> 0 < sb" "s < 0 \<longrightarrow> sb < 0"
  shows "\<exists>r. round64 (of_int t / sb) = Finite r
           \<and> \<lceil>r\<rceil> = \<lceil>(of_int t / of_int s :: rat)\<rceil>"
proof (cases "t = 0")
  case True
  then show ?thesis by (simp add: round64_0)
next
  case False
  define y :: rat where "y = of_int t / sb"
  define z :: rat where "z = of_int t / of_int s"
  have sb0: "sb \<noteq> 0" using sb1 by auto
  have s0: "s \<noteq> 0" using s1 by auto
  have ay: "\<bar>y\<bar> = of_int \<bar>t\<bar> / \<bar>sb\<bar>" by (simp add: y_def)
  have az: "\<bar>z\<bar> = of_int \<bar>t\<bar> / of_int \<bar>s\<bar>" by (simp add: z_def)
  have t1: "(1::rat) \<le> of_int \<bar>t\<bar>" using False by (rule one_le_rat_of_abs)
  have "\<bar>t\<bar> \<le> 2 ^ 53 - 1" using t by simp
  then have "(of_int \<bar>t\<bar> :: rat) \<le> of_int (2 ^ 53 - 1)" by (rule rat_of_int_le)
  then have t2: "(of_int \<bar>t\<bar> :: rat) \<le> 2 ^ 53 - 1" by simp
  have sbp: "0 < \<bar>sb\<bar>" using sb0 by simp
  have "1 / 2 ^ 64 \<le> 1 / \<bar>sb\<bar>" using sb2 sbp by (simp add: frac_le)
  also have "\<dots> \<le> \<bar>y\<bar>" unfolding ay using t1 sbp by (simp add: divide_right_mono)
  finally have lo': "1 / 2 ^ 64 \<le> \<bar>y\<bar>" by simp
  have "of_int \<bar>t\<bar> / \<bar>sb\<bar> \<le> (2 ^ 53 - 1) / \<bar>sb\<bar>"
    using t2 sbp by (simp add: divide_right_mono)
  also have "\<dots> \<le> (2 ^ 53 - 1) / 2 ^ 53" using sb1 by (intro divide_left_mono) auto
  finally have y1: "\<bar>y\<bar> \<le> 1 - 1 / 2 ^ 53" by (simp add: ay)
  then have hi': "\<bar>y\<bar> \<le> 2 ^ 64" by simp
  note lo = normal_range(1) [OF lo' hi'] and hi = normal_range(2) [OF lo' hi']
  obtain r where r: "round64 y = Finite r" "\<bar>r - y\<bar> \<le> 2 powi (expo y - 53)"
      "0 < y \<longrightarrow> 0 < r" "y < 0 \<longrightarrow> r < 0"
    using round64_normal [OF lo hi] by blast
  have y0: "y \<noteq> 0" using False sb0 by (simp add: y_def)
  have "(2::rat) powi expo y < 2 powi 0" using expo_bounds [OF y0] y1 by simp
  then have "expo y < 0" by (simp only: pow2_less_iff)
  then have "(2::rat) powi (expo y - 53) \<le> 2 powi (- 54)" by (simp only: pow2_le_iff)
  then have err: "\<bar>r - y\<bar> \<le> 1 / 2 ^ 54" using r(2) by (simp add: power_int_minus_divide)
  have "(1::rat) / 2 ^ 54 < 1 / 2 ^ 53" by simp
  then have rlt: "\<bar>r\<bar> < 1" using err y1 by linarith
  have "(of_int \<bar>t\<bar> :: rat) < of_int \<bar>s\<bar>"
    using t s1 by (simp only: of_int_less_iff)
  then have z1: "\<bar>z\<bar> < 1" unfolding az using s0 by simp
  have z0: "z \<noteq> 0" using False s0 by (simp add: z_def)
  have sgn: "0 < y \<longleftrightarrow> 0 < z"
    unfolding y_def z_def using sg s0 sb0 by (auto simp: zero_less_divide_iff)
  show ?thesis
  proof (cases "0 < y")
    case True
    then have "0 < r" "r < 1" using r(3) rlt by auto
    then have "\<lceil>r\<rceil> = 1" by (simp add: ceiling_unique)
    moreover have "0 < z" "z < 1" using True sgn z1 by auto
    then have "\<lceil>z\<rceil> = 1" by (simp add: ceiling_unique)
    ultimately show ?thesis using r(1) by (simp add: y_def z_def)
  next
    case False
    then have "y < 0" using y0 by simp
    then have "- 1 < r" "r < 0" using r(4) rlt by auto
    then have "\<lceil>r\<rceil> = 0" by (simp add: ceiling_unique)
    moreover have "- 1 < z" "z < 0" using False sgn z1 z0 by auto
    then have "\<lceil>z\<rceil> = 0" by (simp add: ceiling_unique)
    ultimately show ?thesis using r(1) by (simp add: y_def z_def)
  qed
qed

lemma compare_round64:
  fixes c n :: int
  assumes c: "\<bar>c\<bar> < 2 ^ 53" and n: "\<bar>n\<bar> \<le> 2 ^ 63"
  shows "\<exists>rn. round64 (of_int n) = Finite rn \<and> (rn < of_int c \<longleftrightarrow> n < c)"
proof (cases "\<bar>n\<bar> \<le> 2 ^ 53")
  case True
  then have "round64 (of_int n) = Finite (of_int n)" by (rule round64_of_int)
  then show ?thesis by simp
next
  case False
  then have "2 ^ 53 < \<bar>n\<bar>" by simp
  then obtain rn where rn: "round64 (of_int n) = Finite rn" "2 ^ 53 \<le> \<bar>rn\<bar>"
      "0 < n \<longrightarrow> 0 < rn" "n < 0 \<longrightarrow> rn < 0"
    using round64_big [OF _ n] by blast
  have "\<bar>of_int c :: rat\<bar> < 2 ^ 53"
    using rat_of_int_less [OF c] by simp
  then have "(rn < of_int c \<longleftrightarrow> n < c)"
    using rn(2,3,4) False c by (cases "0 < n") auto
  then show ?thesis using rn(1) by blast
qed

lemma round64_int_sign:
  fixes t :: int
  assumes "\<bar>t\<bar> \<le> 2 ^ 63"
  shows "\<exists>r. round64 (of_int t) = Finite r \<and> (0 < r \<longleftrightarrow> 0 < t) \<and> (r = 0 \<longleftrightarrow> t = 0)"
proof (cases "\<bar>t\<bar> \<le> 2 ^ 53")
  case True
  then have "round64 (of_int t) = Finite (of_int t)" by (rule round64_of_int)
  then show ?thesis by simp
next
  case False
  then have "2 ^ 53 < \<bar>t\<bar>" by simp
  then obtain r where r: "round64 (of_int t) = Finite r" "2 ^ 53 \<le> \<bar>r\<bar>"
      "0 < t \<longrightarrow> 0 < r" "t < 0 \<longrightarrow> r < 0"
    using round64_big [OF _ assms] by blast
  have "(0 < r \<longleftrightarrow> 0 < t) \<and> (r = 0 \<longleftrightarrow> t = 0)"
    using r(2,3,4) False by (cases "0 < t") auto
  then show ?thesis using r(1) by blast
qed

lemma ceiling_quot_bound:
  fixes t s :: int
  assumes t: "\<bar>t\<bar> < 2 ^ 53" and s0: "s \<noteq> 0"
  shows "\<bar>\<lceil>(of_int t / of_int s :: rat)\<rceil>\<bar> < 2 ^ 53"
proof -
  define x :: rat where "x = of_int t / of_int s"
  have s1: "(1::rat) \<le> of_int \<bar>s\<bar>" using s0 by (rule one_le_rat_of_abs)
  have "\<bar>x\<bar> = of_int \<bar>t\<bar> / of_int \<bar>s\<bar>" by (simp add: x_def)
  also have "\<dots> \<le> of_int \<bar>t\<bar> / 1"
    using s1 by (intro divide_left_mono) auto
  finally have ax: "\<bar>x\<bar> \<le> of_int \<bar>t\<bar>" by simp
  then have "x \<le> of_int \<bar>t\<bar>" by linarith
  then have up: "\<lceil>x\<rceil> \<le> \<bar>t\<bar>" by (simp only: ceiling_le_iff)
  have "of_int (- \<bar>t\<bar>) \<le> x" using ax by simp
  then have "\<lceil>(of_int (- \<bar>t\<bar>) :: rat)\<rceil> \<le> \<lceil>x\<rceil>" by (rule ceiling_mono)
  then have dn: "- \<bar>t\<bar> \<le> \<lceil>x\<rceil>" by (simp only: ceiling_of_int)
  show ?thesis using up dn t unfolding x_def by linarith
qed

lemma hasNext_exact:
  fixes t s n :: int
  assumes t: "\<bar>t\<bar> < 2 ^ 53" and s0: "s \<noteq> 0" and s: "\<bar>s\<bar> \<le> 2 ^ 63"
    and n: "\<bar>n\<bar> \<le> 2 ^ 63"
  shows "fgt (Ceil (fdiv (round64 (of_int t)) (round64 (of_int s)))) (round64 (of_int n)) \<longleftrightarrow> n < \<lceil>(of_int t / of_int s :: rat)\<rceil>"
proof -
  define c where "c = \<lceil>(of_int t / of_int s :: rat)\<rceil>"
  have cb: "\<bar>c\<bar> < 2 ^ 53" unfolding c_def using t s0 by (rule ceiling_quot_bound)
  have ft: "round64 (of_int t) = Finite (of_int t)" using t by (intro round64_of_int) simp
  have "\<exists>sb r. round64 (of_int s) = Finite sb \<and> sb \<noteq> 0
            \<and> round64 (of_int t / sb) = Finite r \<and> \<lceil>r\<rceil> = c"
  proof (cases "\<bar>s\<bar> \<le> 2 ^ 53")
    case True
    then have "round64 (of_int s) = Finite (of_int s)" by (rule round64_of_int)
    moreover obtain r where "round64 (of_int t / of_int s) = Finite r" "\<lceil>r\<rceil> = c"
      using ceil_quot_small [OF t s0 True] unfolding c_def by blast
    ultimately show ?thesis using s0 by auto
  next
    case False
    then have s1: "2 ^ 53 < \<bar>s\<bar>" by simp
    obtain sb where sb: "round64 (of_int s) = Finite sb" "2 ^ 53 \<le> \<bar>sb\<bar>" "\<bar>sb\<bar> \<le> 2 ^ 64"
        "0 < s \<longrightarrow> 0 < sb" "s < 0 \<longrightarrow> sb < 0"
      using round64_big [OF s1 s] by blast
    obtain r where "round64 (of_int t / sb) = Finite r" "\<lceil>r\<rceil> = c"
      using ceil_quot_big [OF t sb(2,3) s1 sb(4,5)] unfolding c_def by blast
    moreover have "sb \<noteq> 0" using sb(2) by auto
    ultimately show ?thesis using sb(1) by auto
  qed
  then obtain sb r where q: "round64 (of_int s) = Finite sb" "sb \<noteq> 0"
      "round64 (of_int t / sb) = Finite r" "\<lceil>r\<rceil> = c" by blast
  obtain rn where rn: "round64 (of_int n) = Finite rn" "rn < of_int c \<longleftrightarrow> n < c"
    using compare_round64 [OF cb n] by blast
  have "fgt (Ceil (fdiv (round64 (of_int t)) (round64 (of_int s)))) (round64 (of_int n)) \<longleftrightarrow> rn < of_int c"
    by (simp add: ft q rn(1))
  then show ?thesis using rn(2) by (simp add: c_def)
qed

lemma hasNext_zero_size:
  fixes t n :: int
  assumes t: "\<bar>t\<bar> \<le> 2 ^ 63" and n: "\<bar>n\<bar> \<le> 2 ^ 63"
  shows "fgt (Ceil (fdiv (round64 (of_int t)) (round64 (of_int (0::int))))) (round64 (of_int n)) \<longleftrightarrow> 0 < t"
proof -
  obtain r where r: "round64 (of_int t) = Finite r" "0 < r \<longleftrightarrow> 0 < t" "r = 0 \<longleftrightarrow> t = 0"
    using round64_int_sign [OF t] by blast
  obtain rn where rn: "round64 (of_int n) = Finite rn"
    using round64_int_sign [OF n] by blast
  show ?thesis
    using r(2,3) by (simp add: r(1) rn round64_0)
qed


subsection \<open>DeleteMany always carries its predicate\<close>

text \<open>
  Claim C10. DeleteMany takes exactly one predicate (its argument is a single value of
  the predicate type, not a sequence). Whatever the predicate and whatever the store,
  the method makes one call of \<open>ExecContext\<close>, and the statement the store receives is
  \<open>delete from user where <predicate SQL>;\<close>; the method returns what that call yields
  (the rows affected, or zero and the wrapped error). Seen from a store that records its
  calls, the one statement recorded contains the keyword \<open>where\<close>, whereas the statements
  SelectMany and CountMany send without predicates contain none, and the select of
  PageMany without predicates contains none but those of the page clause.
\<close>

theorem DeleteMany_statement:
  "DeleteMany Sql db whereQ s =
     (case ExecContext db (''delete from user where '' @ Sql whereQ @ '';'') s of
        (Inl err, s') \<Rightarrow>
          ((0, Some (ErrorsWrap err ''error returned from calling db.ExecContext'')), s')
      | (Inr result, s') \<Rightarrow> (RowsAffected result, s'))
   \<and> snd (DeleteMany Sql (recorder named exec select get) whereQ seen)
         = seen @ [''delete from user where '' @ Sql whereQ @ '';'']
   \<and> map (\<lambda>stmt. 0 < occurrences ''where'' stmt)
         (snd (DeleteMany Sql (recorder named exec select get) whereQ [])) = [True]
   \<and> map (occurrences ''where'')
         (snd (SelectMany Sql (recorder named exec select get) [] [])) = [0]
   \<and> map (occurrences ''where'')
         (snd (CountMany Sql (recorder named exec select get) [] [])) = [0]
   \<and> map (occurrences ''where'')
         (snd (PageMany Sql PageSql NewPageRet (recorder named exec select get) page [] []))
         = occurrences ''where'' (PageSql page)
             # (case select (''select * from user '' @ PageSql page) of
                  Inl err \<Rightarrow> [] | Inr users \<Rightarrow> [0])"
proof (intro conjI)
  show "DeleteMany Sql db whereQ s =
     (case ExecContext db (''delete from user where '' @ Sql whereQ @ '';'') s of
        (Inl err, s') \<Rightarrow>
          ((0, Some (ErrorsWrap err ''error returned from calling db.ExecContext'')), s')
      | (Inr result, s') \<Rightarrow> (RowsAffected result, s'))"
    by (simp add: DeleteMany_def Let_def)
  show "snd (DeleteMany Sql (recorder named exec select get) whereQ seen)
         = seen @ [''delete from user where '' @ Sql whereQ @ '';'']"
    by (simp add: DeleteMany_def Let_def recorder_def split: sum.split)
  show "map (\<lambda>stmt. 0 < occurrences ''where'' stmt)
         (snd (DeleteMany Sql (recorder named exec select get) whereQ [])) = [True]"
    by (simp add: DeleteMany_def Let_def recorder_def split: sum.split)
  show "map (occurrences ''where'')
         (snd (SelectMany Sql (recorder named exec select get) [] [])) = [0]"
    by (simp add: SelectMany_eq recorder_def split: sum.split)
  show "map (occurrences ''where'')
         (snd (CountMany Sql (recorder named exec select get) [] [])) = [0]"
    by (simp add: CountMany_eq recorder_def split: sum.split)
  show "map (occurrences ''where'')
         (snd (PageMany Sql PageSql NewPageRet (recorder named exec select get) page [] []))
         = occurrences ''where'' (PageSql page)
             # (case select (''select * from user '' @ PageSql page) of
                  Inl err \<Rightarrow> [] | Inr users \<Rightarrow> [0])"
    by (simp add: PageMany_eq recorder_def split: sum.split)
qed

theorem DeleteMany_statement_witness:
  "snd (DeleteMany (\<lambda>q. q) (recorder (\<lambda>st d. Inl (External ''down''))
          (\<lambda>st. Inr \<lparr> LastInsertId = (0, None), RowsAffected = (3, None) \<rparr>)
          (\<lambda>st. Inl (External ''down'')) (\<lambda>st. Inl (External ''down''))
          :: (unit, nat, string list) Querier)
        ''age > 18'' [])
     = [''delete from user where age > 18;'']
   \<and> fst (DeleteMany (\<lambda>q. q) (recorder (\<lambda>st d. Inl (External ''down''))
          (\<lambda>st. Inr \<lparr> LastInsertId = (0, None), RowsAffected = (3, None) \<rparr>)
          (\<lambda>st. Inl (External ''down'')) (\<lambda>st. Inl (External ''down''))
          :: (unit, nat, string list) Querier)
        ''age > 18'' [])
     = (3, None)"
  using DeleteMany_statement [THEN conjunct1, of "\<lambda>q. q"
      "recorder (\<lambda>st d. Inl (External ''down''))
          (\<lambda>st. Inr \<lparr> LastInsertId = (0, None), RowsAffected = (3, None) \<rparr>)
          (\<lambda>st. Inl (External ''down'')) (\<lambda>st. Inl (External ''down''))
          :: (unit, nat, string list) Querier"
      "''age > 18''" "[]"]
  by (simp add: recorder_def)

subsection \<open>Composition of predicates\<close>

text \<open>
  Claim C2. SelectMany, CountMany and PageMany hand the store one statement each
  (PageMany a select and, when the select succeeds, a count). With no predicate the
  statement is the bare head (for the select of PageMany, the head, a space and the page
  clause) and the code adds no \<open>where\<close>: the keyword occurs in it as often as in the page
  clause, that is never for SelectMany and CountMany. With one or more predicates the
  statement is the head, \<open>where\<close>, and the SQL texts of the predicates in the order of the
  arguments, all separated by single spaces (followed, for the select of PageMany, by a
  space and the page clause); the keyword occurs exactly once more often than in the
  texts that the caller supplied.
\<close>

theorem predicate_composition:
  "SelectMany Sql db whereQ s =
     (case SelectContext db
             (if whereQ = [] then ''select * from user''
              else ''select * from user'' @ '' where '' @ Join (map Sql whereQ) '' '') s of
        (Inl err, s') \<Rightarrow>
          (Inl (ErrorsWrap err ''error returned from calling db.SelectContext''), s')
      | (Inr users, s') \<Rightarrow> (Inr users, s'))
   \<and> CountMany Sql db whereQ s =
     (case GetContext db
             (if whereQ = [] then ''select count(1) from user''
              else ''select count(1) from user'' @ '' where '' @ Join (map Sql whereQ) '' '') s of
        (Inl err, s') \<Rightarrow>
          (Inl (ErrorsWrap err ''error returned from calling db.GetContext''), s')
      | (Inr total', s') \<Rightarrow> (Inr total', s'))
   \<and> snd (PageMany Sql PageSql NewPageRet (recorder named exec select get) page whereQ seen)
       = seen
         @ [if whereQ = [] then ''select * from user'' @ '' '' @ PageSql page
            else ''select * from user'' @ '' where '' @ Join (map Sql whereQ) '' ''
                   @ '' '' @ PageSql page]
         @ (case select (if whereQ = [] then ''select * from user'' @ '' '' @ PageSql page
                         else ''select * from user'' @ '' where '' @ Join (map Sql whereQ) '' ''
                                @ '' '' @ PageSql page) of
              Inl err \<Rightarrow> []
            | Inr users \<Rightarrow>
                [if whereQ = [] then ''select count(1) from user''
                 else ''select count(1) from user'' @ '' where ''
                        @ Join (map Sql whereQ) '' ''])
   \<and> map (occurrences ''where'')
         (snd (SelectMany Sql (recorder named exec select get) whereQ []))
       = [if whereQ = [] then 0 else Suc (occurrences ''where'' (Join (map Sql whereQ) '' ''))]
   \<and> map (occurrences ''where'')
         (snd (CountMany Sql (recorder named exec select get) whereQ []))
       = [if whereQ = [] then 0 else Suc (occurrences ''where'' (Join (map Sql whereQ) '' ''))]
   \<and> map (occurrences ''where'')
         (take 1 (snd (PageMany Sql PageSql NewPageRet (recorder named exec select get)
                         page whereQ [])))
       = [if whereQ = [] then occurrences ''where'' (PageSql page)
          else Suc (occurrences ''where'' (Join (map Sql whereQ) '' '')
                      + occurrences ''where'' (PageSql page))]"
proof (intro conjI)
  show "SelectMany Sql db whereQ s =
     (case SelectContext db
             (if whereQ = [] then ''select * from user''
              else ''select * from user'' @ '' where '' @ Join (map Sql whereQ) '' '') s of
        (Inl err, s') \<Rightarrow>
          (Inl (ErrorsWrap err ''error returned from calling db.SelectContext''), s')
      | (Inr users, s') \<Rightarrow> (Inr users, s'))"
    by (rule SelectMany_eq)
  show "CountMany Sql db whereQ s =
     (case GetContext db
             (if whereQ = [] then ''select count(1) from user''
              else ''select count(1) from user'' @ '' where '' @ Join (map Sql whereQ) '' '') s of
        (Inl err, s') \<Rightarrow>
          (Inl (ErrorsWrap err ''error returned from calling db.GetContext''), s')
      | (Inr total', s') \<Rightarrow> (Inr total', s'))"
    by (rule CountMany_eq)
  show "snd (PageMany Sql PageSql NewPageRet (recorder named exec select get) page whereQ seen)
       = seen
         @ [if whereQ = [] then ''select * from user'' @ '' '' @ PageSql page
            else ''select * from user'' @ '' where '' @ Join (map Sql whereQ) '' ''
                   @ '' '' @ PageSql page]
         @ (case select (if whereQ = [] then ''select * from user'' @ '' '' @ PageSql page
                         else ''select * from user'' @ '' where '' @ Join (map Sql whereQ) '' ''
                                @ '' '' @ PageSql page) of
              Inl err \<Rightarrow> []
            | Inr users \<Rightarrow>
                [if whereQ = [] then ''select count(1) from user''
                 else ''select count(1) from user'' @ '' where ''
                        @ Join (map Sql whereQ) '' ''])"
    unfolding PageMany_eq by (simp add: recorder_def split: sum.split)
  show "map (occurrences ''where'')
         (snd (SelectMany Sql (recorder named exec select get) whereQ []))
       = [if whereQ = [] then 0 else Suc (occurrences ''where'' (Join (map Sql whereQ) '' ''))]"
    unfolding SelectMany_eq by (simp add: recorder_def split: sum.split)
  show "map (occurrences ''where'')
         (snd (CountMany Sql (recorder named exec select get) whereQ []))
       = [if whereQ = [] then 0 else Suc (occurrences ''where'' (Join (map Sql whereQ) '' ''))]"
    unfolding CountMany_eq by (simp add: recorder_def split: sum.split)
  have p: "occurrences ''where'' (Join (map Sql whereQ) '' '' @ '' '' @ PageSql page)
             = occurrences ''where'' (Join (map Sql whereQ) '' '')
                 + occurrences ''where'' (PageSql page)"
    by (rule where_across_space)
  show "map (occurrences ''where'')
         (take 1 (snd (PageMany Sql PageSql NewPageRet (recorder named exec select get)
                         page whereQ [])))
       = [if whereQ = [] then occurrences ''where'' (PageSql page)
          else Suc (occurrences ''where'' (Join (map Sql whereQ) '' '')
                      + occurrences ''where'' (PageSql page))]"
    unfolding PageMany_eq using p by (simp add: recorder_def split: sum.split)
qed

theorem predicate_composition_witness:
  "snd (SelectMany (\<lambda>q. q) (recorder (\<lambda>st d. Inl (External ''down''))
          (\<lambda>st. Inl (External ''down'')) (\<lambda>st. Inr [1::nat, 2])
          (\<lambda>st. Inr 2) :: (unit, nat, string list) Querier) [''age > 18'', ''and name like 7''] [])
     = [''select * from user where age > 18 and name like 7'']
   \<and> snd (CountMany (\<lambda>q. q) (recorder (\<lambda>st d. Inl (External ''down''))
          (\<lambda>st. Inl (External ''down'')) (\<lambda>st. Inr [1::nat, 2])
          (\<lambda>st. Inr 2) :: (unit, nat, string list) Querier) [] [])
     = [''select count(1) from user'']"
  using predicate_composition [THEN conjunct1, of "\<lambda>q. q"
      "recorder (\<lambda>st d. Inl (External ''down''))
          (\<lambda>st. Inl (External ''down'')) (\<lambda>st. Inr [1::nat, 2]) (\<lambda>st. Inr 2)
          :: (unit, nat, string list) Querier"
      "[''age > 18'', ''and name like 7'']" "[]"]
    predicate_composition [THEN conjunct2, THEN conjunct1, of "\<lambda>q. q"
      "recorder (\<lambda>st d. Inl (External ''down''))
          (\<lambda>st. Inl (External ''down'')) (\<lambda>st. Inr [1::nat, 2]) (\<lambda>st. Inr 2)
          :: (unit, nat, string list) Querier"
      "[]" "[]"]
  by (simp add: recorder_def)

subsection \<open>A value of the wrong type is refused before the store is touched\<close>

text \<open>
  Claim C8. When the value underlying the \<open>data\<close> argument is not a \<open>domain.User\<close>,
  UpdateMany and UpdateManyNoneZero return zero and the error
  \<open>incorrect type of parameter data\<close>. They return (the functions have no other outcome),
  the state of every store is left as it was, and a store that records its calls records
  none.
\<close>

theorem UpdateMany_wrong_type:
  assumes "\<And>user. underlying dat \<noteq> UserVal user"
  shows "UpdateMany underlying BlockMysql Sql db dat whereQ s
           = ((0, Some (ErrorsNew ''incorrect type of parameter data'')), s)
       \<and> UpdateManyNoneZero underlying BlockMysql Sql db dat whereQ s
           = ((0, Some (ErrorsNew ''incorrect type of parameter data'')), s)
       \<and> snd (UpdateMany underlying BlockMysql Sql (recorder named exec select get)
                  dat whereQ seen) = seen
       \<and> snd (UpdateManyNoneZero underlying BlockMysql Sql (recorder named exec select get)
                  dat whereQ seen) = seen"
proof (cases "underlying dat")
  case (UserPtr a)
  then show ?thesis by (simp add: UpdateMany_def UpdateManyNoneZero_def)
next
  case (UserVal user)
  then show ?thesis using assms by blast
next
  case (OtherVal v)
  then show ?thesis by (simp add: UpdateMany_def UpdateManyNoneZero_def)
qed

theorem UpdateMany_wrong_type_witness:
  "UpdateMany (\<lambda>d. d) (\<lambda>b (d :: User block_data). Inr ''update user set ...'') (\<lambda>q. q)
      (recorder (\<lambda>st d. Inl (External ''down''))
         (\<lambda>st. Inr \<lparr> LastInsertId = (0, None), RowsAffected = (3, None) \<rparr>)
         (\<lambda>st. Inl (External ''down'')) (\<lambda>st. Inl (External ''down''))
         :: (unit, nat, string list) Querier)
      (OtherVal (5 :: nat)) ''age > 18'' []
     = ((0, Some (ErrorsNew ''incorrect type of parameter data'')), [])"
  using UpdateMany_wrong_type [THEN conjunct1, of "\<lambda>d. d" "OtherVal (5 :: nat)"
      "\<lambda>b (d :: User block_data). Inr ''update user set ...''" "\<lambda>q. q"
      "recorder (\<lambda>st d. Inl (External ''down''))
         (\<lambda>st. Inr \<lparr> LastInsertId = (0, None), RowsAffected = (3, None) \<rparr>)
         (\<lambda>st. Inl (External ''down'')) (\<lambda>st. Inl (External ''down''))
         :: (unit, nat, string list) Querier"
      "''age > 18''" "[]"]
  by simp

subsection \<open>Insert and Upsert write the generated key back\<close>



subsection \<open>The flag HasNext of PageMany\<close>

lemma sint64_bound: "\<bar>sint (w :: int64)\<bar> \<le> 2 ^ 63"
  using sint_ge [of w] sint_lt [of w] by simp

lemma hasNext_flag:
  assumes "\<bar>sint (t :: int64)\<bar> < 2 ^ 53"
  shows "fgt (Ceil (fdiv (float64_of_int t) (float64_of_int ps))) (float64_of_int pn)
           \<longleftrightarrow> (if sint ps = 0 then 0 < sint t
                else sint pn < \<lceil>(of_int (sint t) / of_int (sint ps) :: rat)\<rceil>)"
proof (cases "sint ps = 0")
  case True
  have "\<bar>sint t\<bar> \<le> 2 ^ 63" by (rule sint64_bound)
  then show ?thesis
    unfolding float64_of_int_def True
    using hasNext_zero_size [of "sint t" "sint pn"] sint64_bound [of pn] by simp
next
  case False
  then show ?thesis
    unfolding float64_of_int_def
    using hasNext_exact [OF assms False sint64_bound sint64_bound, of pn] by simp
qed

lemma expo_tie: "expo (2 ^ 53 + 1) = 53" and expo_53: "expo (2 ^ 53) = 53"
  by (rule expo_unique; simp)+

lemma round64_tie: "round64 (2 ^ 53 + 1) = Finite (2 ^ 53)"
proof -
  have "\<lfloor>(9007199254740993 / 2 :: rat)\<rfloor> = 4503599627370496"
    by (rule floor_unique) simp_all
  then have "round_half_even ((2 ^ 53 + 1) / 2) = 2 ^ 52"
    by (simp add: round_half_even_def Let_def)
  then show ?thesis
    unfolding round64_def Let_def expo_tie using expo_53 by simp
qed

text \<open>
  Claim C1, as the code has it. When both reads succeed, PageMany returns the page
  result of \<open>query.NewPageRet\<close> with the rows and the total filled in. Provided the
  constructor leaves the flag unset and the total is below \<open>2^53\<close> in absolute value (so
  that its conversion to \<open>float64\<close> is exact), the flag \<open>HasNext\<close> of the result is true
  exactly when the ceiling of total / pageSize exceeds the page number, for every page
  size other than zero and every page number; for the page size zero, where the quotient
  does not exist, the flag is true exactly when the total is positive.
\<close>

theorem PageMany_hasNext:
  assumes new: "\<not> HasNext (NewPageRet page)"
    and sel: "SelectContext db
                (if whereQ = [] then ''select * from user'' @ '' '' @ PageSql page
                 else ''select * from user'' @ '' where '' @ Join (map Sql whereQ) '' ''
                        @ '' '' @ PageSql page) s = (Inr users, s1)"
    and cnt: "GetContext db
                (if whereQ = [] then ''select count(1) from user''
                 else ''select count(1) from user'' @ '' where ''
                        @ Join (map Sql whereQ) '' '') s1 = (Inr total', s2)"
    and tot: "\<bar>sint total'\<bar> < 2 ^ 53"
  shows "\<exists>pr. PageMany Sql PageSql NewPageRet db page whereQ s = (Inr pr, s2)
           \<and> Items pr = users \<and> Total pr = total'
           \<and> PageNo pr = PageNo (NewPageRet page)
           \<and> PageSize pr = PageSize (NewPageRet page)
           \<and> (HasNext pr \<longleftrightarrow>
                 (if sint (PageSize pr) = 0 then 0 < sint total'
                  else sint (PageNo pr)
                         < \<lceil>(of_int (sint total') / of_int (sint (PageSize pr)) :: rat)\<rceil>))"
proof -
  define b where "b = fgt (Ceil (fdiv (float64_of_int total')
                                   (float64_of_int (PageSize (NewPageRet page)))))
                        (float64_of_int (PageNo (NewPageRet page)))"
  define F where "F \<longleftrightarrow>
      (if sint (PageSize (NewPageRet page)) = 0 then 0 < sint total'
       else sint (PageNo (NewPageRet page))
              < \<lceil>(of_int (sint total') / of_int (sint (PageSize (NewPageRet page))) :: rat)\<rceil>)"
  have fb: "b \<longleftrightarrow> F"
    unfolding b_def F_def
    by (rule hasNext_flag [OF tot, of "PageSize (NewPageRet page)" "PageNo (NewPageRet page)"])
  have e: "PageMany Sql PageSql NewPageRet db page whereQ s =
             (Inr (if b
                   then (NewPageRet page) \<lparr> Items := users, Total := total', HasNext := True \<rparr>
                   else (NewPageRet page) \<lparr> Items := users, Total := total' \<rparr>), s2)"
    unfolding b_def by (simp only: PageMany_eq sel cnt prod.case sum.case)
  have "\<exists>pr. PageMany Sql PageSql NewPageRet db page whereQ s = (Inr pr, s2)
           \<and> Items pr = users \<and> Total pr = total'
           \<and> PageNo pr = PageNo (NewPageRet page)
           \<and> PageSize pr = PageSize (NewPageRet page)
           \<and> (HasNext pr \<longleftrightarrow> F)"
  proof (cases b)
    case True
    then show ?thesis unfolding e using fb by simp
  next
    case False
    then show ?thesis unfolding e using fb new by simp
  qed
  then obtain pr where p: "PageMany Sql PageSql NewPageRet db page whereQ s = (Inr pr, s2)"
      "Items pr = users" "Total pr = total'" "PageNo pr = PageNo (NewPageRet page)"
      "PageSize pr = PageSize (NewPageRet page)" "HasNext pr \<longleftrightarrow> F"
    by blast
  have "HasNext pr \<longleftrightarrow>
          (if sint (PageSize pr) = 0 then 0 < sint total'
           else sint (PageNo pr)
                  < \<lceil>(of_int (sint total') / of_int (sint (PageSize pr)) :: rat)\<rceil>)"
    unfolding p(4,5) using p(6) unfolding F_def .
  then show ?thesis using p(1-5) by blast
qed

text \<open>
  The values of the specification: a total of 25 with pages of 10 has a next page after
  pages 1 and 2 and none after page 3; a total of 20 has none after page 2.
\<close>

theorem PageMany_hasNext_witness:
  "(let run = (\<lambda>total' no.
        case fst (PageMany (\<lambda>q. q) (\<lambda>p. ''limit 0,10'')
                    (\<lambda>p. \<lparr> Items = [], PageNo = no, PageSize = 10, Total = 0, HasNext = False \<rparr>)
                    (recorder (\<lambda>st d. Inl (External ''down'')) (\<lambda>st. Inl (External ''down''))
                       (\<lambda>st. Inr [1::nat, 2]) (\<lambda>st. Inr total')
                       :: (unit, nat, string list) Querier)
                    () [] []) of
          Inr pr \<Rightarrow> HasNext pr
        | Inl err \<Rightarrow> False)
    in run 25 1 \<and> run 25 2 \<and> \<not> run 25 3 \<and> \<not> run 20 2)"
proof -
  let ?db = "\<lambda>total'. recorder (\<lambda>st d. Inl (External ''down'')) (\<lambda>st. Inl (External ''down''))
                       (\<lambda>st. Inr [1::nat, 2]) (\<lambda>st. Inr total')
                       :: (unit, nat, string list) Querier"
  let ?new = "\<lambda>no p. \<lparr> Items = [] :: nat list, PageNo = no, PageSize = 10, Total = 0,
                        HasNext = False \<rparr>"
  have r: "\<exists>pr. PageMany (\<lambda>q. q) (\<lambda>p. ''limit 0,10'') (?new no) (?db total') () [] []
                  = (Inr pr, [''select * from user limit 0,10'', ''select count(1) from user''])
              \<and> Items pr = [1, 2] \<and> Total pr = total'
              \<and> PageNo pr = PageNo (?new no ())
              \<and> PageSize pr = PageSize (?new no ())
              \<and> (HasNext pr \<longleftrightarrow>
                    (if sint (PageSize pr) = 0 then 0 < sint total'
                     else sint (PageNo pr)
                            < \<lceil>(of_int (sint total') / of_int (sint (PageSize pr)) :: rat)\<rceil>))"
    if "\<bar>sint total'\<bar> < 2 ^ 53" for total' no
    by (rule PageMany_hasNext) (use that in \<open>simp_all add: recorder_def\<close>)
  have a: "\<lceil>(25 / 10 :: rat)\<rceil> = 3" and b: "\<lceil>(20 / 10 :: rat)\<rceil> = 2"
    by (simp_all add: ceiling_unique)
  have "case fst (PageMany (\<lambda>q. q) (\<lambda>p. ''limit 0,10'') (?new 1) (?db 25) () [] []) of
          Inr pr \<Rightarrow> HasNext pr | Inl err \<Rightarrow> False"
    using r [of 25 1] a by auto
  moreover have "case fst (PageMany (\<lambda>q. q) (\<lambda>p. ''limit 0,10'') (?new 2) (?db 25) () [] []) of
          Inr pr \<Rightarrow> HasNext pr | Inl err \<Rightarrow> False"
    using r [of 25 2] a by auto
  moreover have "\<not> (case fst (PageMany (\<lambda>q. q) (\<lambda>p. ''limit 0,10'') (?new 3) (?db 25) () [] []) of
          Inr pr \<Rightarrow> HasNext pr | Inl err \<Rightarrow> False)"
    using r [of 25 3] a by auto
  moreover have "\<not> (case fst (PageMany (\<lambda>q. q) (\<lambda>p. ''limit 0,10'') (?new 2) (?db 20) () [] []) of
          Inr pr \<Rightarrow> HasNext pr | Inl err \<Rightarrow> False)"
    using r [of 20 2] b by auto
  ultimately show ?thesis by (simp add: Let_def)
qed

text \<open>
  The claim as stated, for every total, fails where the conversion to \<open>float64\<close> rounds:
  with a total of \<open>2^53 + 1\<close>, pages of 1 and the page number \<open>2^53\<close>, the ceiling of
  total / pageSize exceeds the page number, and PageMany leaves the flag unset.
\<close>

theorem PageMany_hasNext_counterexample:
  "sint (2 ^ 53 :: int64) < \<lceil>(of_int (sint (2 ^ 53 + 1 :: int64)) / of_int (sint (1 :: int64)) :: rat)\<rceil>
   \<and> (case fst (PageMany (\<lambda>q. q) (\<lambda>p. ''limit 9007199254740991,1'')
                   (\<lambda>p. \<lparr> Items = [], PageNo = 2 ^ 53, PageSize = 1, Total = 0,
                           HasNext = False \<rparr>)
                   (recorder (\<lambda>st d. Inl (External ''down'')) (\<lambda>st. Inl (External ''down''))
                      (\<lambda>st. Inr [1::nat]) (\<lambda>st. Inr (2 ^ 53 + 1))
                      :: (unit, nat, string list) Querier)
                   () [] []) of
         Inr pr \<Rightarrow> HasNext pr
       | Inl err \<Rightarrow> True) = False"
proof -
  have t: "float64_of_int 9007199254740993 = Finite 9007199254740992"
    using round64_tie by (simp add: float64_of_int_def)
  have n: "float64_of_int 9007199254740992 = Finite 9007199254740992"
    using round64_of_int [of "2 ^ 53"] by (simp add: float64_of_int_def)
  have o: "float64_of_int 1 = Finite 1"
    using round64_of_int [of 1] by (simp add: float64_of_int_def)
  have q: "round64 9007199254740992 = Finite 9007199254740992"
    using round64_of_int [of "2 ^ 53"] by simp
  have "\<not> fgt (Ceil (fdiv (float64_of_int (2 ^ 53 + 1)) (float64_of_int 1)))
              (float64_of_int (2 ^ 53))"
    by (simp add: t n o q)
  then show ?thesis
    unfolding PageMany_eq by (simp add: recorder_def)
qed

end
